theory Spec2Isabelle
  imports Main "HOL-Library.Word"
begin

unbundle bit_operations_syntax

section \<open>The GroceryVault contract\<close>

text \<open>
  A shallow embedding of the Solidity contract \<^verbatim>\<open>GroceryVault\<close> (pragma \<^verbatim>\<open>^0.8.20\<close>).
  \<^item> \<^verbatim>\<open>uint256\<close> and \<^verbatim>\<open>bytes32\<close> are 256-bit words, \<^verbatim>\<open>address\<close> is a 160-bit word,
    \<^verbatim>\<open>bytes\<close> is a list of 8-bit words.
  \<^item> Arithmetic is checked, as it is from Solidity 0.8 on: an addition that does not
    fit in 256 bits aborts the call with a panic.
  \<^item> A failing \<^verbatim>\<open>require\<close> aborts the call; the function then returns \<open>Inl\<close> with an
    error named after the revert string and no state, since the EVM discards every
    write of an aborted call.
  \<^item> What the contract takes from its platform is a parameter: the hash
    \<^verbatim>\<open>keccak256\<close>, the precompile \<^verbatim>\<open>ecrecover\<close>, the chain id, the contract's own
    address, and the two \<^verbatim>\<open>IERC20\<close> functions it calls on a token. A token call
    works on a ledger state of an arbitrary type \<open>'l\<close>; it answers \<open>None\<close> when the
    callee reverts and \<open>Some (ok, l')\<close> when it returns the boolean \<open>ok\<close>. A token
    is taken not to call back into the vault.
\<close>

subsection \<open>Types\<close>

type_synonym address = "160 word"
type_synonym uint256 = "256 word"
type_synonym bytes32 = "256 word"
type_synonym bytes = "8 word list"

record Policy =
  monthlyCap :: uint256
  weeklyCap :: uint256
  perTxCap :: uint256
  requireUserSig :: bool

record Intent =
  user :: address
  merchant :: address
  token :: address
  amount :: uint256
  deadline :: uint256
  cartHash :: bytes32
  nonce :: uint256

record SpendWindow =
  weekStart :: uint256
  weekSpent :: uint256
  monthStart :: uint256
  monthSpent :: uint256

text \<open>The contract's storage, with the immutable \<^verbatim>\<open>DOMAIN_SEPARATOR\<close>.\<close>

record vault =
  policyOf :: "address \<Rightarrow> Policy"
  merchantAllowed :: "address \<Rightarrow> address \<Rightarrow> bool"
  agentAllowed :: "address \<Rightarrow> address \<Rightarrow> bool"
  spend :: "address \<Rightarrow> SpendWindow"
  nonces :: "address \<Rightarrow> uint256"
  intentUsed :: "bytes32 \<Rightarrow> bool"
  DOMAIN_SEPARATOR :: bytes32

text \<open>The platform: EVM primitives, deployment constants and the token interface.\<close>

record 'l evm =
  keccak256 :: "bytes \<Rightarrow> bytes32"
  ecrecover :: "bytes32 \<Rightarrow> 8 word \<Rightarrow> bytes32 \<Rightarrow> bytes32 \<Rightarrow> address"
  chainid :: uint256
  this :: address
  erc20_transfer :: "address \<Rightarrow> address \<Rightarrow> address \<Rightarrow> uint256 \<Rightarrow> 'l \<Rightarrow> (bool \<times> 'l) option"
  erc20_transferFrom ::
    "address \<Rightarrow> address \<Rightarrow> address \<Rightarrow> address \<Rightarrow> uint256 \<Rightarrow> 'l \<Rightarrow> (bool \<times> 'l) option"

text \<open>
  \<open>erc20_transfer ch tok caller to amt l\<close> is \<^verbatim>\<open>IERC20(tok).transfer(to, amt)\<close> called by
  \<open>caller\<close>; \<open>erc20_transferFrom ch tok caller from to amt l\<close> is
  \<^verbatim>\<open>IERC20(tok).transferFrom(from, to, amt)\<close>.
\<close>

record env =
  msg_sender :: address
  block_timestamp :: uint256

datatype event =
    Deposited address address uint256
  | Withdrawn address address uint256 address
  | PolicyUpdated address uint256 uint256 uint256 bool
  | MerchantAllowed address address bool
  | AgentAllowed address address bool
  | IntentExecuted bytes32 address address address uint256

text \<open>One error for each revert string, one for a panic, one for a reverting callee.\<close>

datatype error =
    CapsPerTxTooHigh      \<comment> \<open>\<^verbatim>\<open>"caps: perTx too high"\<close>\<close>
  | AmountZero            \<comment> \<open>\<^verbatim>\<open>"amount=0"\<close>\<close>
  | TransferFromFailed    \<comment> \<open>\<^verbatim>\<open>"transferFrom failed"\<close>\<close>
  | ToZero                \<comment> \<open>\<^verbatim>\<open>"to=0"\<close>\<close>
  | TransferFailed        \<comment> \<open>\<^verbatim>\<open>"transfer failed"\<close>\<close>
  | Expired               \<comment> \<open>\<^verbatim>\<open>"expired"\<close>\<close>
  | UserZero              \<comment> \<open>\<^verbatim>\<open>"user=0"\<close>\<close>
  | PerTxCap              \<comment> \<open>\<^verbatim>\<open>"perTx cap"\<close>\<close>
  | MerchantNotAllowed    \<comment> \<open>\<^verbatim>\<open>"merchant not allowed"\<close>\<close>
  | BadNonce              \<comment> \<open>\<^verbatim>\<open>"bad nonce"\<close>\<close>
  | IntentUsed            \<comment> \<open>\<^verbatim>\<open>"intent used"\<close>\<close>
  | SigRequiredInvalid    \<comment> \<open>\<^verbatim>\<open>"sig required/invalid"\<close>\<close>
  | NotAuthorized         \<comment> \<open>\<^verbatim>\<open>"not authorized"\<close>\<close>
  | SigInvalid            \<comment> \<open>\<^verbatim>\<open>"sig invalid"\<close>\<close>
  | WeeklyCap             \<comment> \<open>\<^verbatim>\<open>"weekly cap"\<close>\<close>
  | MonthlyCap            \<comment> \<open>\<^verbatim>\<open>"monthly cap"\<close>\<close>
  | Panic                 \<comment> \<open>arithmetic overflow, \<^verbatim>\<open>Panic(0x11)\<close>\<close>
  | CalleeReverted        \<comment> \<open>the called token reverted\<close>

subsection \<open>Checked arithmetic, encoding\<close>

definition checked_add :: "uint256 \<Rightarrow> uint256 \<Rightarrow> error + uint256" where
  "checked_add a b = (if unat a + unat b < 2 ^ 256 then Inr (a + b) else Inl Panic)"

definition days :: "nat \<Rightarrow> uint256" where
  "days n = of_nat (n * 86400)"

text \<open>A 256-bit word as 32 bytes, most significant first, and back.\<close>

definition be32 :: "uint256 \<Rightarrow> bytes" where
  "be32 w = map (\<lambda>i. ucast (drop_bit (8 * (31 - i)) w)) [0..<32]"

definition of_be :: "bytes \<Rightarrow> uint256" where
  "of_be bs = foldl (\<lambda>acc b. push_bit 8 acc OR ucast b) 0 bs"

definition abi_encode :: "uint256 list \<Rightarrow> bytes" where
  "abi_encode ws = concat (map be32 ws)"

definition bytes_of :: "string \<Rightarrow> bytes" where
  "bytes_of str = map (\<lambda>c. of_nat (of_char c)) str"

definition addr :: "address \<Rightarrow> uint256" where
  "addr a = ucast a"

text \<open>
  \<^verbatim>\<open>calldataload\<close> at an offset into a \<^verbatim>\<open>bytes calldata\<close> value reads 32 bytes, zero
  beyond the end; \<^verbatim>\<open>byte(0, w)\<close> is the most significant byte of \<open>w\<close>.
\<close>

definition calldataload :: "bytes \<Rightarrow> nat \<Rightarrow> uint256" where
  "calldataload sig off = of_be (take 32 (drop off sig @ replicate 32 0))"

definition byte0 :: "uint256 \<Rightarrow> 8 word" where
  "byte0 w = ucast (drop_bit 248 w)"

subsection \<open>EIP-712\<close>

definition DOMAIN_TYPEHASH :: "'l evm \<Rightarrow> bytes32" where
  "DOMAIN_TYPEHASH ch = keccak256 ch (bytes_of
     ''EIP712Domain(string name,string version,uint256 chainId,address verifyingContract)'')"

definition INTENT_TYPEHASH :: "'l evm \<Rightarrow> bytes32" where
  "INTENT_TYPEHASH ch = keccak256 ch (bytes_of
     ''Intent(address user,address merchant,address token,uint256 amount,uint256 deadline,bytes32 cartHash,uint256 nonce)'')"

definition "constructor" :: "'l evm \<Rightarrow> vault" where
  "constructor ch =
     \<lparr> policyOf = (\<lambda>_. \<lparr>monthlyCap = 0, weeklyCap = 0, perTxCap = 0, requireUserSig = False\<rparr>),
       merchantAllowed = (\<lambda>_ _. False),
       agentAllowed = (\<lambda>_ _. False),
       spend = (\<lambda>_. \<lparr>weekStart = 0, weekSpent = 0, monthStart = 0, monthSpent = 0\<rparr>),
       nonces = (\<lambda>_. 0),
       intentUsed = (\<lambda>_. False),
       DOMAIN_SEPARATOR = keccak256 ch (abi_encode
         [DOMAIN_TYPEHASH ch,
          keccak256 ch (bytes_of ''GroceryVault''),
          keccak256 ch (bytes_of ''1''),
          chainid ch,
          addr (this ch)]) \<rparr>"

definition hashIntent :: "'l evm \<Rightarrow> vault \<Rightarrow> Intent \<Rightarrow> bytes32" where
  "hashIntent ch s intent =
     (let structHash = keccak256 ch (abi_encode
        [INTENT_TYPEHASH ch,
         addr (user intent),
         addr (merchant intent),
         addr (token intent),
         amount intent,
         deadline intent,
         cartHash intent,
         nonce intent])
      in keccak256 ch ([0x19, 0x01] @ be32 (DOMAIN_SEPARATOR s) @ be32 structHash))"

definition verifyUserSig :: "'l evm \<Rightarrow> vault \<Rightarrow> Intent \<Rightarrow> bytes \<Rightarrow> bool" where
  "verifyUserSig ch s intent sig =
     (if length sig \<noteq> 65 then False
      else
        let digest = hashIntent ch s intent;
            r = calldataload sig 0;
            s' = calldataload sig 32;
            v = byte0 (calldataload sig 64);
            recovered = ecrecover ch digest v r s'
        in recovered = user intent)"

subsection \<open>User configuration\<close>

definition setPolicy :: "env \<Rightarrow> Policy \<Rightarrow> vault \<Rightarrow> error + vault \<times> event list" where
  "setPolicy e p s =
     (if \<not> (perTxCap p \<le> weeklyCap p \<and> perTxCap p \<le> monthlyCap p) then Inl CapsPerTxTooHigh
      else Inr (s\<lparr>policyOf := (policyOf s)(msg_sender e := p)\<rparr>,
                [PolicyUpdated (msg_sender e) (monthlyCap p) (weeklyCap p) (perTxCap p)
                   (requireUserSig p)]))"

definition setMerchantAllowed ::
  "env \<Rightarrow> address \<Rightarrow> bool \<Rightarrow> vault \<Rightarrow> error + vault \<times> event list" where
  "setMerchantAllowed e m allowed s =
     Inr (s\<lparr>merchantAllowed :=
              (merchantAllowed s)(msg_sender e := (merchantAllowed s (msg_sender e))(m := allowed))\<rparr>,
          [MerchantAllowed (msg_sender e) m allowed])"

definition setAgentAllowed ::
  "env \<Rightarrow> address \<Rightarrow> bool \<Rightarrow> vault \<Rightarrow> error + vault \<times> event list" where
  "setAgentAllowed e a allowed s =
     Inr (s\<lparr>agentAllowed :=
              (agentAllowed s)(msg_sender e := (agentAllowed s (msg_sender e))(a := allowed))\<rparr>,
          [AgentAllowed (msg_sender e) a allowed])"

subsection \<open>Funds management\<close>

definition deposit ::
  "'l evm \<Rightarrow> env \<Rightarrow> address \<Rightarrow> uint256 \<Rightarrow> vault \<times> 'l \<Rightarrow> error + (vault \<times> 'l) \<times> event list" where
  "deposit ch e tok amt st =
     (if \<not> amt > 0 then Inl AmountZero
      else case erc20_transferFrom ch tok (this ch) (msg_sender e) (this ch) amt (snd st) of
             None \<Rightarrow> Inl CalleeReverted
           | Some (ok, l') \<Rightarrow>
               if \<not> ok then Inl TransferFromFailed
               else Inr ((fst st, l'), [Deposited (msg_sender e) tok amt]))"

definition withdraw ::
  "'l evm \<Rightarrow> env \<Rightarrow> address \<Rightarrow> uint256 \<Rightarrow> address \<Rightarrow> vault \<times> 'l
     \<Rightarrow> error + (vault \<times> 'l) \<times> event list" where
  "withdraw ch e tok amt to st =
     (if \<not> to \<noteq> 0 then Inl ToZero
      else if \<not> amt > 0 then Inl AmountZero
      else case erc20_transfer ch tok (this ch) to amt (snd st) of
             None \<Rightarrow> Inl CalleeReverted
           | Some (ok, l') \<Rightarrow>
               if \<not> ok then Inl TransferFailed
               else Inr ((fst st, l'), [Withdrawn (msg_sender e) tok amt to]))"

subsection \<open>Spend windows\<close>

definition rollWindowsIfNeeded :: "env \<Rightarrow> address \<Rightarrow> vault \<Rightarrow> error + vault" where
  "rollWindowsIfNeeded e u s =
     (let w = spend s u in
      if weekStart w = 0
      then Inr (s\<lparr>spend := (spend s)
                  (u := w\<lparr>weekStart := block_timestamp e, monthStart := block_timestamp e\<rparr>)\<rparr>)
      else
        case checked_add (weekStart w) (days 7) of
          Inl err \<Rightarrow> Inl err
        | Inr weekEnd \<Rightarrow>
            let w1 = (if block_timestamp e \<ge> weekEnd
                      then w\<lparr>weekStart := block_timestamp e, weekSpent := 0\<rparr> else w)
            in case checked_add (monthStart w1) (days 30) of
                 Inl err \<Rightarrow> Inl err
               | Inr monthEnd \<Rightarrow>
                   let w2 = (if block_timestamp e \<ge> monthEnd
                             then w1\<lparr>monthStart := block_timestamp e, monthSpent := 0\<rparr> else w1)
                   in Inr (s\<lparr>spend := (spend s)(u := w2)\<rparr>))"

definition viewRolledWeek :: "env \<Rightarrow> uint256 \<Rightarrow> uint256 \<Rightarrow> error + uint256 \<times> uint256" where
  "viewRolledWeek e ws wsp =
     (if ws = 0 then Inr (0, 0)
      else case checked_add ws (days 7) of
             Inl err \<Rightarrow> Inl err
           | Inr weekEnd \<Rightarrow>
               if block_timestamp e \<ge> weekEnd then Inr (block_timestamp e, 0)
               else Inr (ws, wsp))"

definition viewRolledMonth :: "env \<Rightarrow> uint256 \<Rightarrow> uint256 \<Rightarrow> error + uint256 \<times> uint256" where
  "viewRolledMonth e ms msp =
     (if ms = 0 then Inr (0, 0)
      else case checked_add ms (days 30) of
             Inl err \<Rightarrow> Inl err
           | Inr monthEnd \<Rightarrow>
               if block_timestamp e \<ge> monthEnd then Inr (block_timestamp e, 0)
               else Inr (ms, msp))"

text \<open>The views take the storage and return a number only: they cannot write.\<close>

definition remainingWeekly :: "env \<Rightarrow> address \<Rightarrow> vault \<Rightarrow> error + uint256" where
  "remainingWeekly e u s =
     (let p = policyOf s u; w = spend s u in
      case viewRolledWeek e (weekStart w) (weekSpent w) of
        Inl err \<Rightarrow> Inl err
      | Inr (ws, spent) \<Rightarrow>
          if spent \<ge> weeklyCap p then Inr 0 else Inr (weeklyCap p - spent))"

definition remainingMonthly :: "env \<Rightarrow> address \<Rightarrow> vault \<Rightarrow> error + uint256" where
  "remainingMonthly e u s =
     (let p = policyOf s u; w = spend s u in
      case viewRolledMonth e (monthStart w) (monthSpent w) of
        Inl err \<Rightarrow> Inl err
      | Inr (ms, spent) \<Rightarrow>
          if spent \<ge> monthlyCap p then Inr 0 else Inr (monthlyCap p - spent))"

subsection \<open>Core execution\<close>

definition executeIntent ::
  "'l evm \<Rightarrow> env \<Rightarrow> Intent \<Rightarrow> bytes \<Rightarrow> vault \<times> 'l \<Rightarrow> error + (vault \<times> 'l) \<times> event list" where
  "executeIntent ch e intent userSig st =
     (let s = fst st; l = snd st in
      if \<not> block_timestamp e \<le> deadline intent then Inl Expired
      else if \<not> user intent \<noteq> 0 then Inl UserZero
      else if \<not> amount intent > 0 then Inl AmountZero
      else
        let p = policyOf s (user intent) in
        if \<not> amount intent \<le> perTxCap p then Inl PerTxCap
        else if \<not> merchantAllowed s (user intent) (merchant intent) then Inl MerchantNotAllowed
        else if \<not> nonce intent = nonces s (user intent) then Inl BadNonce
        else
          let intentId = hashIntent ch s intent in
          if \<not> \<not> intentUsed s intentId then Inl IntentUsed
          else
            let s1 = s\<lparr>intentUsed := (intentUsed s)(intentId := True)\<rparr>;
                callerIsUser = (msg_sender e = user intent);
                callerIsAgent = agentAllowed s1 (user intent) (msg_sender e);
                authorization =
                  (if requireUserSig p
                   then (if \<not> verifyUserSig ch s1 intent userSig
                         then Inl SigRequiredInvalid else Inr ())
                   else if \<not> (callerIsUser \<or> callerIsAgent)
                   then (if \<not> verifyUserSig ch s1 intent userSig
                         then Inl NotAuthorized else Inr ())
                   else if length userSig > 0
                   then (if \<not> verifyUserSig ch s1 intent userSig
                         then Inl SigInvalid else Inr ())
                   else Inr ())
            in case authorization of
                 Inl err \<Rightarrow> Inl err
               | Inr _ \<Rightarrow>
            case rollWindowsIfNeeded e (user intent) s1 of
              Inl err \<Rightarrow> Inl err
            | Inr s2 \<Rightarrow>
            let w = spend s2 (user intent) in
            case checked_add (weekSpent w) (amount intent) of
              Inl err \<Rightarrow> Inl err
            | Inr weekTotal \<Rightarrow>
            if \<not> weekTotal \<le> weeklyCap p then Inl WeeklyCap
            else
            case checked_add (monthSpent w) (amount intent) of
              Inl err \<Rightarrow> Inl err
            | Inr monthTotal \<Rightarrow>
            if \<not> monthTotal \<le> monthlyCap p then Inl MonthlyCap
            else
            case checked_add (weekSpent w) (amount intent) of
              Inl err \<Rightarrow> Inl err
            | Inr weekSpent' \<Rightarrow>
            case checked_add (monthSpent w) (amount intent) of
              Inl err \<Rightarrow> Inl err
            | Inr monthSpent' \<Rightarrow>
            let s3 = s2\<lparr>spend := (spend s2)
                       (user intent := w\<lparr>weekSpent := weekSpent', monthSpent := monthSpent'\<rparr>)\<rparr>
            in case checked_add (nonces s3 (user intent)) 1 of
              Inl err \<Rightarrow> Inl err
            | Inr n \<Rightarrow>
            let s4 = s3\<lparr>nonces := (nonces s3)(user intent := n)\<rparr>
            in case erc20_transfer ch (token intent) (this ch) (merchant intent) (amount intent) l of
              None \<Rightarrow> Inl CalleeReverted
            | Some (ok, l') \<Rightarrow>
                if \<not> ok then Inl TransferFailed
                else Inr ((s4, l'),
                  [IntentExecuted intentId (user intent) (merchant intent) (token intent)
                     (amount intent)]))"

subsection \<open>Transactions\<close>

text \<open>
  The contract's external functions as one datatype of calls. A transaction runs one
  call; when the call aborts, the state stays as it was before the transaction.
\<close>

datatype call =
    SetPolicy Policy
  | SetMerchantAllowed address bool
  | SetAgentAllowed address bool
  | Deposit address uint256
  | Withdraw address uint256 address
  | ExecuteIntent Intent bytes

fun dispatch ::
  "'l evm \<Rightarrow> env \<Rightarrow> call \<Rightarrow> vault \<times> 'l \<Rightarrow> error + (vault \<times> 'l) \<times> event list" where
  "dispatch ch e (SetPolicy p) st =
     (case setPolicy e p (fst st) of Inl err \<Rightarrow> Inl err | Inr (s', evs) \<Rightarrow> Inr ((s', snd st), evs))"
| "dispatch ch e (SetMerchantAllowed m b) st =
     (case setMerchantAllowed e m b (fst st) of
        Inl err \<Rightarrow> Inl err | Inr (s', evs) \<Rightarrow> Inr ((s', snd st), evs))"
| "dispatch ch e (SetAgentAllowed a b) st =
     (case setAgentAllowed e a b (fst st) of
        Inl err \<Rightarrow> Inl err | Inr (s', evs) \<Rightarrow> Inr ((s', snd st), evs))"
| "dispatch ch e (Deposit tok amt) st = deposit ch e tok amt st"
| "dispatch ch e (Withdraw tok amt to) st = withdraw ch e tok amt to st"
| "dispatch ch e (ExecuteIntent intent userSig) st = executeIntent ch e intent userSig st"

datatype outcome = Reverted error | Succeeded "event list"

definition transact :: "'l evm \<Rightarrow> env \<Rightarrow> call \<Rightarrow> vault \<times> 'l \<Rightarrow> (vault \<times> 'l) \<times> outcome" where
  "transact ch e c st =
     (case dispatch ch e c st of
        Inl err \<Rightarrow> (st, Reverted err)
      | Inr (st', evs) \<Rightarrow> (st', Succeeded evs))"

fun run :: "'l evm \<Rightarrow> (env \<times> call) list \<Rightarrow> vault \<times> 'l \<Rightarrow> vault \<times> 'l" where
  "run ch [] st = st"
| "run ch ((e, c) # tr) st = run ch tr (fst (transact ch e c st))"

subsection \<open>Reachable states\<close>

text \<open>
  A block timestamp counts the seconds since 1970: it is never zero, and thirty days
  added to it stay far below \<open>2 ^ 256\<close>. The states the contract can be in are those
  that the constructor and successful calls at such times produce.
\<close>

definition sane_time :: "uint256 \<Rightarrow> bool" where
  "sane_time t \<longleftrightarrow> t \<noteq> 0 \<and> unat t + unat (days 30) < 2 ^ 256"

inductive reachable :: "'l evm \<Rightarrow> vault \<Rightarrow> bool" for ch :: "'l evm" where
  reachable_init: "reachable ch (constructor ch)"
| reachable_step:
    "reachable ch s \<Longrightarrow> sane_time (block_timestamp e) \<Longrightarrow>
     dispatch ch e c (s, l) = Inr ((s', l'), evs) \<Longrightarrow> reachable ch s'"

text \<open>
  What holds of every stored window and policy: a window whose \<open>weekStart\<close> is zero
  has never been written, and the starts of a written window are block timestamps;
  a stored policy has passed the check of \<^verbatim>\<open>setPolicy\<close>.
\<close>

definition window_inv :: "SpendWindow \<Rightarrow> bool" where
  "window_inv w \<longleftrightarrow>
     (if weekStart w = 0 then weekSpent w = 0 \<and> monthStart w = 0 \<and> monthSpent w = 0
      else sane_time (weekStart w) \<and> sane_time (monthStart w))"

definition policy_inv :: "Policy \<Rightarrow> bool" where
  "policy_inv p \<longleftrightarrow> perTxCap p \<le> weeklyCap p \<and> perTxCap p \<le> monthlyCap p"

subsection \<open>The rollover rule of the specification\<close>

text \<open>
  The rule as the specification words it, with the difference \<open>now - start\<close> taken
  in the integers: an unset window starts now with nothing spent; otherwise the week
  restarts when seven days have elapsed and the month when thirty days have, each
  on its own.
\<close>

definition rollIfExpired :: "SpendWindow \<Rightarrow> uint256 \<Rightarrow> SpendWindow" where
  "rollIfExpired window now =
     (if weekStart window = 0
      then \<lparr>weekStart = now, weekSpent = 0, monthStart = now, monthSpent = 0\<rparr>
      else
        \<lparr>weekStart = (if int (unat now) - int (unat (weekStart window)) \<ge> 7 * 86400
                      then now else weekStart window),
         weekSpent = (if int (unat now) - int (unat (weekStart window)) \<ge> 7 * 86400
                      then 0 else weekSpent window),
         monthStart = (if int (unat now) - int (unat (monthStart window)) \<ge> 30 * 86400
                       then now else monthStart window),
         monthSpent = (if int (unat now) - int (unat (monthStart window)) \<ge> 30 * 86400
                       then 0 else monthSpent window)\<rparr>)"

subsection \<open>Example values\<close>

text \<open>
  A platform for running examples: the ledger is trivial and every token call
  succeeds; the hash looks at the last byte only, and the recovered signer is read
  off the \<open>r\<close> component of the signature.
\<close>

definition demo_evm :: "unit evm" where
  "demo_evm =
     \<lparr> keccak256 = (\<lambda>bs. if bs = [] then 0 else ucast (last bs)),
       ecrecover = (\<lambda>digest v r s. ucast r),
       chainid = 1,
       this = 0x7A,
       erc20_transfer = (\<lambda>tok caller to amt l. Some (True, l)),
       erc20_transferFrom = (\<lambda>tok caller from to amt l. Some (True, l)) \<rparr>"

definition alice :: address where "alice = 0xA1"
definition agent :: address where "agent = 0xB2"
definition shop :: address where "shop = 0xC3"
definition usdc :: address where "usdc = 0xD4"

definition demo_policy :: Policy where
  "demo_policy = \<lparr>monthlyCap = 300, weeklyCap = 100, perTxCap = 50, requireUserSig = False\<rparr>"

definition bad_policy :: Policy where
  "bad_policy = \<lparr>monthlyCap = 300, weeklyCap = 100, perTxCap = 101, requireUserSig = False\<rparr>"

definition at_time :: "address \<Rightarrow> nat \<Rightarrow> env" where
  "at_time a t = \<lparr>msg_sender = a, block_timestamp = of_nat t\<rparr>"

definition demo_setup :: "(env \<times> call) list" where
  "demo_setup =
     [(at_time alice 1000, SetPolicy demo_policy),
      (at_time alice 1000, SetMerchantAllowed shop True),
      (at_time alice 1000, SetAgentAllowed agent True)]"

definition demo_vault :: vault where
  "demo_vault = fst (run demo_evm demo_setup (constructor demo_evm, ()))"

definition demo_intent :: Intent where
  "demo_intent = \<lparr>user = alice, merchant = shop, token = usdc, amount = 40, deadline = 5000,
     cartHash = 0, nonce = 0\<rparr>"

text \<open>A signature whose \<open>r\<close> component is \<open>alice\<close>, and a platform whose tokens refuse.\<close>

definition demo_sig :: bytes where
  "demo_sig = replicate 31 0 @ [0xA1] @ replicate 33 0"

definition failing_evm :: "unit evm" where
  "failing_evm = demo_evm\<lparr>erc20_transfer := (\<lambda>tok caller to amt l. Some (False, l))\<rparr>"

text \<open>
  A history of the account: 40 spent at time 2000, 50 more at time 2500, and 20 more
  twenty-nine days after the first.
\<close>

definition second_intent :: Intent where
  "second_intent = \<lparr>user = alice, merchant = shop, token = usdc, amount = 50, deadline = 3000000,
     cartHash = 0, nonce = 1\<rparr>"

definition third_intent :: Intent where
  "third_intent = \<lparr>user = alice, merchant = shop, token = usdc, amount = 20, deadline = 3000000,
     cartHash = 0, nonce = 2\<rparr>"

definition demo_history :: "(env \<times> call) list" where
  "demo_history =
     [(at_time agent 2000, ExecuteIntent demo_intent []),
      (at_time agent 2500, ExecuteIntent second_intent []),
      (at_time agent 2507600, ExecuteIntent third_intent [])]"

definition demo_vault1 :: vault where
  "demo_vault1 = fst (run demo_evm (take 1 demo_history) (demo_vault, ()))"

definition demo_vault2 :: vault where
  "demo_vault2 = fst (run demo_evm (take 2 demo_history) (demo_vault, ()))"

definition demo_vault3 :: vault where
  "demo_vault3 = fst (run demo_evm demo_history (demo_vault, ()))"

text \<open>An account without limits that has spent the largest amount there is.\<close>

definition max_uint256 :: uint256 where
  "max_uint256 = 0xFFFFFFFFFFFFFFFFFFFFFFFFFFFFFFFFFFFFFFFFFFFFFFFFFFFFFFFFFFFFFFFF"

definition unlimited_policy :: Policy where
  "unlimited_policy = \<lparr>monthlyCap = max_uint256, weeklyCap = max_uint256,
     perTxCap = max_uint256, requireUserSig = False\<rparr>"

definition huge_intent :: Intent where
  "huge_intent = \<lparr>user = alice, merchant = shop, token = usdc, amount = max_uint256,
     deadline = 5000, cartHash = 0, nonce = 0\<rparr>"

definition tiny_intent :: Intent where
  "tiny_intent = \<lparr>user = alice, merchant = shop, token = usdc, amount = 1,
     deadline = 5000, cartHash = 0, nonce = 1\<rparr>"

definition overflow_setup :: "(env \<times> call) list" where
  "overflow_setup =
     [(at_time alice 1000, SetPolicy unlimited_policy),
      (at_time alice 1000, SetMerchantAllowed shop True),
      (at_time alice 2000, ExecuteIntent huge_intent [])]"

definition overflow_vault :: vault where
  "overflow_vault = fst (run demo_evm overflow_setup (constructor demo_evm, ()))"

subsection \<open>The authorization rules of the specification\<close>

text \<open>
  The three-rule precedence as the specification words it, over the five facts it
  names: whether the policy requires a user signature, whether the caller is the
  account owner, whether the caller is an allowlisted agent, whether a signature was
  supplied, and whether the signature verifies against the account owner.
\<close>

definition authorizationEvaluator :: "bool \<Rightarrow> bool \<Rightarrow> bool \<Rightarrow> bool \<Rightarrow> bool \<Rightarrow> bool" where
  "authorizationEvaluator requireSig isCallerAccountOwner isCallerAllowlistedAgent
      signatureSupplied signatureValid =
     (if requireSig then signatureValid
      else if isCallerAccountOwner \<or> isCallerAllowlistedAgent
      then (if signatureSupplied then signatureValid else True)
      else signatureValid)"

section \<open>Properties\<close>

subsection \<open>Basic facts\<close>

lemma hashIntent_cong:
  "DOMAIN_SEPARATOR s = DOMAIN_SEPARATOR t \<Longrightarrow> hashIntent ch s i = hashIntent ch t i"
  by (simp add: hashIntent_def)

lemma hashIntent_upd [simp]:
  "hashIntent ch (s\<lparr>intentUsed := f\<rparr>) i = hashIntent ch s i"
  "hashIntent ch (s\<lparr>nonces := g\<rparr>) i = hashIntent ch s i"
  "hashIntent ch (s\<lparr>spend := h\<rparr>) i = hashIntent ch s i"
  "hashIntent (ch\<lparr>erc20_transfer := t\<rparr>) s i = hashIntent ch s i"
  by (simp_all add: hashIntent_def INTENT_TYPEHASH_def)

lemma verifyUserSig_upd [simp]:
  "verifyUserSig ch (s\<lparr>intentUsed := f\<rparr>) i sig = verifyUserSig ch s i sig"
  "verifyUserSig (ch\<lparr>erc20_transfer := t\<rparr>) s i sig = verifyUserSig ch s i sig"
  by (simp_all add: verifyUserSig_def)

text \<open>The components read off a signature of 65 bytes: \<open>r\<close>, \<open>s\<close> and the byte \<open>v\<close>.\<close>

lemma of_be_foldl_zeros:
  "foldl (\<lambda>acc b. push_bit 8 acc OR ucast b) (a::uint256) (replicate n (0::8 word)) = push_bit (8 * n) a"
proof (induction n arbitrary: a)
  case 0
  show ?case by simp
next
  case (Suc n)
  have "foldl (\<lambda>acc b. push_bit 8 acc OR ucast b) a (replicate (Suc n) (0::8 word)) =
        foldl (\<lambda>acc b. push_bit 8 acc OR ucast b) (push_bit 8 a) (replicate n (0::8 word))"
    by simp
  also have "\<dots> = push_bit (8 * n) (push_bit 8 a)" by (rule Suc.IH)
  also have "\<dots> = push_bit (8 * Suc n) a" by (simp add: push_bit_eq_mult power_add mult.assoc)
  finally show ?case .
qed

lemma byte0_of_be:
  "byte0 (of_be (b # replicate 31 0)) = b"
proof -
  have "of_be (b # replicate 31 0) = push_bit 248 (ucast b)"
    by (simp add: of_be_def of_be_foldl_zeros)
  moreover have "ucast (drop_bit 248 (push_bit 248 (ucast b :: uint256))) = b"
    by (rule bit_word_eqI) (auto simp: bit_simps)
  ultimately show ?thesis by (simp add: byte0_def)
qed

lemma signature_components:
  assumes "length sig = 65"
  shows "calldataload sig 0 = of_be (take 32 sig)"
    and "calldataload sig 32 = of_be (take 32 (drop 32 sig))"
    and "byte0 (calldataload sig 64) = sig ! 64"
proof -
  show "calldataload sig 0 = of_be (take 32 sig)"
    using assms by (simp add: calldataload_def)
  show "calldataload sig 32 = of_be (take 32 (drop 32 sig))"
    using assms by (simp add: calldataload_def)
  have "drop 64 sig = [sig ! 64]"
    using assms by (simp add: list_eq_iff_nth_eq)
  then have "take 32 (drop 64 sig @ replicate 32 0) = sig ! 64 # replicate 31 0"
    by simp
  then show "byte0 (calldataload sig 64) = sig ! 64"
    by (simp add: calldataload_def byte0_of_be)
qed

lemma checked_add_Inr:
  "checked_add a b = Inr c \<longleftrightarrow> unat a + unat b < 2 ^ 256 \<and> c = a + b"
  by (auto simp: checked_add_def)

lemma checked_add_Inl:
  "checked_add a b = Inl err \<longleftrightarrow> \<not> unat a + unat b < 2 ^ 256 \<and> err = Panic"
  by (auto simp: checked_add_def)

lemma unat_checked:
  "unat (a::uint256) + unat b < 2 ^ 256 \<Longrightarrow> unat (a + b) = unat a + unat b"
  using unat_add_lem[of a b] by simp

lemma rollWindowsIfNeeded_Inl:
  "rollWindowsIfNeeded e u s = Inl err \<Longrightarrow> err = Panic"
  by (auto simp: rollWindowsIfNeeded_def Let_def checked_add_Inl split: if_splits sum.splits)

lemma rollWindowsIfNeeded_frame:
  "rollWindowsIfNeeded e u s = Inr s2 \<Longrightarrow> \<exists>w2. s2 = s\<lparr>spend := (spend s)(u := w2)\<rparr>"
  by (cases "weekStart (spend s u) = 0")
     (auto simp: rollWindowsIfNeeded_def Let_def split: if_splits sum.splits
           intro: exI[of _ "spend s u"])

text \<open>What a successful \<^verbatim>\<open>executeIntent\<close> has checked and written.\<close>

lemma executeIntent_success:
  assumes "executeIntent ch e i sig (s, l) = Inr ((s', l'), evs)"
  shows "block_timestamp e \<le> deadline i \<and> user i \<noteq> 0 \<and> 0 < amount i \<and>
         amount i \<le> perTxCap (policyOf s (user i)) \<and>
         merchantAllowed s (user i) (merchant i) \<and>
         nonce i = nonces s (user i) \<and>
         \<not> intentUsed s (hashIntent ch s i) \<and>
         (\<exists>s2. rollWindowsIfNeeded e (user i)
                 (s\<lparr>intentUsed := (intentUsed s)(hashIntent ch s i := True)\<rparr>) = Inr s2 \<and>
           unat (weekSpent (spend s2 (user i))) + unat (amount i) < 2 ^ 256 \<and>
           weekSpent (spend s2 (user i)) + amount i \<le> weeklyCap (policyOf s (user i)) \<and>
           unat (monthSpent (spend s2 (user i))) + unat (amount i) < 2 ^ 256 \<and>
           monthSpent (spend s2 (user i)) + amount i \<le> monthlyCap (policyOf s (user i)) \<and>
           unat (nonces s (user i)) + 1 < 2 ^ 256 \<and>
           s' = s2\<lparr>spend := (spend s2)(user i := (spend s2 (user i))
                      \<lparr>weekSpent := weekSpent (spend s2 (user i)) + amount i,
                       monthSpent := monthSpent (spend s2 (user i)) + amount i\<rparr>),
                   nonces := (nonces s2)(user i := nonces s (user i) + 1)\<rparr>) \<and>
         erc20_transfer ch (token i) (this ch) (merchant i) (amount i) l = Some (True, l') \<and>
         evs = [IntentExecuted (hashIntent ch s i) (user i) (merchant i) (token i) (amount i)]"
  using assms
  unfolding executeIntent_def Let_def
  apply (simp split: if_splits sum.splits option.splits prod.splits add: checked_add_Inr)
  apply (auto dest!: rollWindowsIfNeeded_frame)
  done

text \<open>The call up to the token transfer depends on neither the token nor the ledger.\<close>

lemma executeIntent_interaction:
  "executeIntent ch e i sig (s, l) =
     (case executeIntent (ch\<lparr>erc20_transfer := (\<lambda>tok caller to amt x. Some (True, x))\<rparr>)
             e i sig (s, l0) of
        Inl err \<Rightarrow> Inl err
      | Inr ((s', _), evs) \<Rightarrow>
          (case erc20_transfer ch (token i) (this ch) (merchant i) (amount i) l of
             None \<Rightarrow> Inl CalleeReverted
           | Some (ok, l') \<Rightarrow> if ok then Inr ((s', l'), evs) else Inl TransferFailed))"
  unfolding executeIntent_def Let_def
  by (simp split: sum.splits option.splits prod.splits)

text \<open>No call clears a consumed intent or changes the domain separator.\<close>

lemma dispatch_consumed:
  assumes "dispatch ch e c (s, l) = Inr ((s', l'), evs)"
  shows "DOMAIN_SEPARATOR s' = DOMAIN_SEPARATOR s \<and> (intentUsed s h \<longrightarrow> intentUsed s' h)"
proof (cases c)
  case (ExecuteIntent i sig)
  with assms have "executeIntent ch e i sig (s, l) = Inr ((s', l'), evs)" by simp
  from executeIntent_success[OF this] show ?thesis
    by (auto dest!: rollWindowsIfNeeded_frame)
qed (use assms in \<open>auto simp: setPolicy_def setMerchantAllowed_def setAgentAllowed_def
       deposit_def withdraw_def split: if_splits option.splits\<close>)

lemma transact_consumed:
  "DOMAIN_SEPARATOR (fst (fst (transact ch e c st))) = DOMAIN_SEPARATOR (fst st) \<and>
   (intentUsed (fst st) h \<longrightarrow> intentUsed (fst (fst (transact ch e c st))) h)"
proof (cases st)
  case (Pair s l)
  show ?thesis
  proof (cases "dispatch ch e c (s, l)")
    case (Inl err)
    then show ?thesis by (simp add: transact_def Pair)
  next
    case (Inr r)
    obtain s' l' evs where r: "r = ((s', l'), evs)"
      by (metis surj_pair)
    from dispatch_consumed[of ch e c s l s' l' evs h] Inr show ?thesis
      by (simp add: transact_def Pair r)
  qed
qed

lemma run_consumed:
  "DOMAIN_SEPARATOR (fst (run ch tr st)) = DOMAIN_SEPARATOR (fst st) \<and>
   (intentUsed (fst st) h \<longrightarrow> intentUsed (fst (run ch tr st)) h)"
proof (induction tr arbitrary: st)
  case Nil
  show ?case by simp
next
  case (Cons a tr)
  obtain e c where a: "a = (e, c)" by (cases a)
  show ?case
    using Cons.IH[of "fst (transact ch e c st)"] transact_consumed[of ch e c st h]
    by (simp add: a)
qed

lemma executeIntent_used:
  "intentUsed s (hashIntent ch s i) \<Longrightarrow> \<exists>err. executeIntent ch e i sig (s, l) = Inl err"
  by (simp add: executeIntent_def Let_def)

text \<open>After validation and authorization, what the rest of the call does.\<close>

lemma rollWindowsIfNeeded_intentUsed:
  "rollWindowsIfNeeded e u (s\<lparr>intentUsed := f\<rparr>) =
     map_sum id (\<lambda>t. t\<lparr>intentUsed := f\<rparr>) (rollWindowsIfNeeded e u s)"
  by (simp add: rollWindowsIfNeeded_def Let_def split: sum.splits)



lemma executeIntent_validated:
  assumes "block_timestamp e \<le> deadline i" and "user i \<noteq> 0" and "0 < amount i"
    and "amount i \<le> perTxCap (policyOf s (user i))"
    and "merchantAllowed s (user i) (merchant i)"
    and "nonce i = nonces s (user i)"
    and "\<not> intentUsed s (hashIntent ch s i)"
    and "authorizationEvaluator (requireUserSig (policyOf s (user i)))
          (msg_sender e = user i) (agentAllowed s (user i) (msg_sender e))
          (sig \<noteq> []) (verifyUserSig ch s i sig)"
    and "rollWindowsIfNeeded e (user i) s = Inr s2"
  shows "executeIntent ch e i sig (s, l) =
     (if \<not> unat (weekSpent (spend s2 (user i))) + unat (amount i) < 2 ^ 256 then Inl Panic
      else if \<not> weekSpent (spend s2 (user i)) + amount i \<le> weeklyCap (policyOf s (user i))
      then Inl WeeklyCap
      else if \<not> unat (monthSpent (spend s2 (user i))) + unat (amount i) < 2 ^ 256 then Inl Panic
      else if \<not> monthSpent (spend s2 (user i)) + amount i \<le> monthlyCap (policyOf s (user i))
      then Inl MonthlyCap
      else if \<not> unat (nonces s (user i)) + 1 < 2 ^ 256 then Inl Panic
      else case erc20_transfer ch (token i) (this ch) (merchant i) (amount i) l of
             None \<Rightarrow> Inl CalleeReverted
           | Some (ok, l') \<Rightarrow>
               if \<not> ok then Inl TransferFailed
               else Inr ((s2\<lparr>intentUsed := (intentUsed s)(hashIntent ch s i := True),
                            spend := (spend s2)(user i := (spend s2 (user i))
                              \<lparr>weekSpent := weekSpent (spend s2 (user i)) + amount i,
                               monthSpent := monthSpent (spend s2 (user i)) + amount i\<rparr>),
                            nonces := (nonces s)(user i := nonces s (user i) + 1)\<rparr>, l'),
                         [IntentExecuted (hashIntent ch s i) (user i) (merchant i) (token i)
                            (amount i)]))"
proof -
  from rollWindowsIfNeeded_frame[OF assms(9)] obtain w2 where
    s2: "s2 = s\<lparr>spend := (spend s)(user i := w2)\<rparr>" by blast
  show ?thesis
    using assms(1-8)
    unfolding executeIntent_def Let_def authorizationEvaluator_def
    by (simp add: rollWindowsIfNeeded_intentUsed assms(9) checked_add_def)
       (auto simp: s2 split: option.splits if_splits)
qed

lemma executeIntent_cap_error:
  assumes "executeIntent ch e i sig (s, l) = Inl err" and "err = WeeklyCap \<or> err = MonthlyCap"
  shows "amount i \<le> perTxCap (policyOf s (user i)) \<and>
     (\<exists>s2. rollWindowsIfNeeded e (user i) s = Inr s2 \<and>
        unat (weekSpent (spend s2 (user i))) + unat (amount i) < 2 ^ 256 \<and>
        (if err = WeeklyCap
         then \<not> weekSpent (spend s2 (user i)) + amount i \<le> weeklyCap (policyOf s (user i))
         else unat (monthSpent (spend s2 (user i))) + unat (amount i) < 2 ^ 256 \<and>
              \<not> monthSpent (spend s2 (user i)) + amount i \<le> monthlyCap (policyOf s (user i))))"
  using assms
  unfolding executeIntent_def Let_def
  by (auto simp: rollWindowsIfNeeded_intentUsed checked_add_def map_sum_def
           split: if_splits sum.splits option.splits dest: rollWindowsIfNeeded_Inl)

subsection \<open>Rollover and the invariants of reachable states\<close>

lemma unat_days [simp]: "unat (days 7) = 604800" "unat (days 30) = 2592000"
  by (simp_all add: days_def)

lemma sane_add:
  assumes "sane_time t"
  shows "checked_add t (days 7) = Inr (t + days 7)" "checked_add t (days 30) = Inr (t + days 30)"
    "unat (t + days 7) = unat t + 604800" "unat (t + days 30) = unat t + 2592000"
proof -
  from assms have b: "unat t + unat (days 30) < 2 ^ 256" "unat t + unat (days 7) < 2 ^ 256"
    by (simp_all add: sane_time_def)
  then show "checked_add t (days 7) = Inr (t + days 7)" "checked_add t (days 30) = Inr (t + days 30)"
    by (simp_all add: checked_add_def)
  from b show "unat (t + days 7) = unat t + 604800" "unat (t + days 30) = unat t + 2592000"
    using unat_checked[of t "days 7"] unat_checked[of t "days 30"] by simp_all
qed

lemma expired_iff:
  assumes "sane_time t"
  shows "t + days 7 \<le> now \<longleftrightarrow> 7 * 86400 \<le> int (unat now) - int (unat t)"
    "t + days 30 \<le> now \<longleftrightarrow> 30 * 86400 \<le> int (unat now) - int (unat t)"
  using sane_add(3,4)[OF assms] by (simp_all add: word_le_nat_alt uint_nat del: of_nat_unat) linarith+

lemma roll_spec:
  assumes "window_inv (spend s u)" and "sane_time (block_timestamp e)"
  shows "rollWindowsIfNeeded e u s =
     Inr (s\<lparr>spend := (spend s)(u := rollIfExpired (spend s u) (block_timestamp e))\<rparr>)"
proof (cases "weekStart (spend s u) = 0")
  case True
  with assms(1) have "spend s u = \<lparr>weekStart = 0, weekSpent = 0, monthStart = 0, monthSpent = 0\<rparr>"
    by (simp add: window_inv_def)
  then show ?thesis
    by (simp add: rollWindowsIfNeeded_def rollIfExpired_def)
next
  case False
  with assms(1) have sw: "sane_time (weekStart (spend s u))" and sm: "sane_time (monthStart (spend s u))"
    by (simp_all add: window_inv_def)
  obtain a b c d where w: "spend s u = \<lparr>weekStart = a, weekSpent = b, monthStart = c, monthSpent = d\<rparr>"
    by (cases "spend s u")
  show ?thesis
    using False sane_add(1)[OF sw] sane_add(2)[OF sm] expired_iff(1)[OF sw] expired_iff(2)[OF sm]
    by (simp add: rollWindowsIfNeeded_def rollIfExpired_def Let_def w)
qed

lemma rollIfExpired_started:
  "sane_time now \<Longrightarrow> window_inv w \<Longrightarrow>
     weekStart (rollIfExpired w now) \<noteq> 0 \<and> window_inv (rollIfExpired w now)"
  by (auto simp: rollIfExpired_def window_inv_def sane_time_def)

lemma window_inv_spent:
  "weekStart w \<noteq> 0 \<Longrightarrow> window_inv w \<Longrightarrow> window_inv (w\<lparr>weekSpent := a, monthSpent := b\<rparr>)"
  by (simp add: window_inv_def)

lemma dispatch_window_inv:
  assumes d: "dispatch ch e c (s, l) = Inr ((s', l'), evs)"
    and t: "sane_time (block_timestamp e)"
    and inv: "\<And>u. window_inv (spend s u)"
  shows "window_inv (spend s' u)"
proof (cases c)
  case (ExecuteIntent i sig)
  with d have ok: "executeIntent ch e i sig (s, l) = Inr ((s', l'), evs)" by simp
  let ?s1 = "s\<lparr>intentUsed := (intentUsed s)(hashIntent ch s i := True)\<rparr>"
  have inv1: "window_inv (spend ?s1 (user i))" using inv by simp
  from executeIntent_success[OF ok] roll_spec[OF inv1 t]
  have s': "s' = ?s1\<lparr>spend := (spend s)(user i := (rollIfExpired (spend s (user i)) (block_timestamp e))
                      \<lparr>weekSpent := weekSpent (rollIfExpired (spend s (user i)) (block_timestamp e)) + amount i,
                       monthSpent := monthSpent (rollIfExpired (spend s (user i)) (block_timestamp e)) + amount i\<rparr>),
                   nonces := (nonces s)(user i := nonces s (user i) + 1)\<rparr>"
    by auto
  show ?thesis
    using rollIfExpired_started[OF t inv[of "user i"]] inv[of u]
    by (simp add: s' window_inv_spent)
qed (use d inv[of u] in \<open>auto simp: setPolicy_def setMerchantAllowed_def setAgentAllowed_def
       deposit_def withdraw_def split: if_splits option.splits\<close>)

lemma reachable_window_inv: "reachable ch s \<Longrightarrow> window_inv (spend s u)"
proof (induction arbitrary: u rule: reachable.induct)
  case reachable_init
  show ?case by (simp add: constructor_def window_inv_def)
next
  case (reachable_step s e c l s' l' evs)
  from dispatch_window_inv[OF reachable_step.hyps(3) reachable_step.hyps(2)] reachable_step.IH
  show ?case by blast
qed

lemma reachable_run:
  "reachable ch (fst st) \<Longrightarrow> list_all (\<lambda>x. sane_time (block_timestamp (fst x))) tr \<Longrightarrow>
     reachable ch (fst (run ch tr st))"
proof (induction tr arbitrary: st)
  case Nil
  then show ?case by simp
next
  case (Cons a tr)
  obtain e c where a: "a = (e, c)" by (cases a)
  obtain s l where st: "st = (s, l)" by (cases st)
  have "reachable ch (fst (fst (transact ch e c st)))"
  proof (cases "dispatch ch e c (s, l)")
    case (Inl err)
    then show ?thesis using Cons.prems(1) by (simp add: transact_def st)
  next
    case (Inr r)
    obtain s' l' evs where r: "r = ((s', l'), evs)" by (metis surj_pair)
    from Cons.prems have "reachable ch s" "sane_time (block_timestamp e)" by (simp_all add: st a)
    from reachable_step[OF this Inr[unfolded r]] show ?thesis
      by (simp add: transact_def st Inr r)
  qed
  with Cons show ?case by (simp add: a)
qed

lemma dispatch_policy_inv:
  assumes d: "dispatch ch e c (s, l) = Inr ((s', l'), evs)"
    and inv: "\<And>u. policy_inv (policyOf s u)"
  shows "policy_inv (policyOf s' u)"
proof (cases c)
  case (ExecuteIntent i sig)
  with d have ok: "executeIntent ch e i sig (s, l) = Inr ((s', l'), evs)" by simp
  from executeIntent_success[OF ok] have "policyOf s' = policyOf s"
    by (auto dest!: rollWindowsIfNeeded_frame)
  with inv show ?thesis by simp
qed (use d inv[of u] in \<open>auto simp: setPolicy_def setMerchantAllowed_def setAgentAllowed_def
       deposit_def withdraw_def policy_inv_def split: if_splits option.splits\<close>)

lemma reachable_policy_inv: "reachable ch s \<Longrightarrow> policy_inv (policyOf s u)"
proof (induction arbitrary: u rule: reachable.induct)
  case reachable_init
  show ?case by (simp add: constructor_def policy_inv_def)
next
  case (reachable_step s e c l s' l' evs)
  from dispatch_policy_inv[OF reachable_step.hyps(3)] reachable_step.IH
  show ?case by blast
qed


subsection \<open>Evaluating the examples\<close>

lemma be32_nonempty [simp]: "be32 w \<noteq> []"
  by (simp add: be32_def)

lemma last_be32 [simp]: "last (be32 w) = ucast w"
  by (simp add: be32_def last_map)

lemma hashIntent_demo: "hashIntent demo_evm s i = ucast (ucast (nonce i) :: 8 word)"
proof -
  have "hashIntent demo_evm s i = ucast (ucast (ucast (ucast (nonce i) :: 8 word) :: 256 word) :: 8 word)"
    by (simp add: hashIntent_def demo_evm_def abi_encode_def Let_def)
  then show ?thesis
    by (simp add: ucast_up_ucast_id is_up)
qed

lemma hashIntent_failing: "hashIntent failing_evm s i = hashIntent demo_evm s i"
  by (simp add: failing_evm_def)

lemma demo_evm_simps:
  "erc20_transfer demo_evm tok caller to amt l = Some (True, l)"
  "erc20_transferFrom demo_evm tok caller from to amt l = Some (True, l)"
  "ecrecover demo_evm digest v r s = ucast r"
  "this demo_evm = 0x7A"
  "erc20_transfer failing_evm tok caller to amt l = Some (False, l)"
  "ecrecover failing_evm digest v r s = ucast r"
  "this failing_evm = 0x7A"
  by (simp_all add: demo_evm_def failing_evm_def)

lemma demo_addresses:
  "alice \<noteq> 0" "shop \<noteq> 0" "agent \<noteq> alice" "shop \<noteq> alice" "alice \<noteq> shop" "alice \<noteq> agent"
  by (simp_all add: alice_def shop_def agent_def)

lemma demo_vault_simps:
  "policyOf demo_vault alice = demo_policy"
  "merchantAllowed demo_vault alice shop"
  "agentAllowed demo_vault alice agent"
  "\<not> agentAllowed demo_vault alice shop"
  "nonces demo_vault alice = 0"
  "\<not> intentUsed demo_vault h"
  "spend demo_vault alice = \<lparr>weekStart = 0, weekSpent = 0, monthStart = 0, monthSpent = 0\<rparr>"
  by (simp_all add: demo_vault_def demo_setup_def transact_def setPolicy_def
        setMerchantAllowed_def setAgentAllowed_def demo_policy_def constructor_def
        alice_def shop_def agent_def at_time_def)

lemma demo_sig_simps:
  "length demo_sig = 65"
  "calldataload demo_sig 0 = 0xA1"
  "of_be (take 32 demo_sig) = 0xA1"
  "demo_sig \<noteq> []"
  "(0xA1 :: address) = alice"
  by (simp add: demo_sig_def, code_simp, code_simp) (simp_all add: demo_sig_def alice_def)

lemma failing_repaired: "failing_evm\<lparr>erc20_transfer := erc20_transfer demo_evm\<rparr> = demo_evm"
  by (simp add: failing_evm_def)

lemmas demo_eval = executeIntent_def Let_def at_time_def demo_intent_def demo_vault_simps
  hashIntent_demo hashIntent_failing verifyUserSig_def demo_policy_def demo_addresses
  rollWindowsIfNeeded_def checked_add_def demo_evm_simps demo_sig_simps

lemma max_uint256_simps:
  "unat max_uint256 = 2 ^ 256 - 1" "0 < max_uint256" "x \<le> max_uint256"
  "max_uint256 \<noteq> 0"
proof -
  have m: "max_uint256 = - 1" by (simp add: max_uint256_def)
  show "unat max_uint256 = 2 ^ 256 - 1" by (simp add: max_uint256_def)
  show "x \<le> max_uint256"  "max_uint256 \<noteq> 0" unfolding m by simp_all
  then show "0 < max_uint256" by (simp add: word_greater_zero_iff)
qed

lemma overflow_vault_simps:
  "policyOf overflow_vault alice = unlimited_policy"
  "merchantAllowed overflow_vault alice shop"
  "nonces overflow_vault alice = 1"
  "intentUsed overflow_vault h \<longleftrightarrow> h = 0"
  "spend overflow_vault alice =
     \<lparr>weekStart = 2000, weekSpent = max_uint256, monthStart = 2000, monthSpent = max_uint256\<rparr>"
  by (simp_all add: overflow_vault_def overflow_setup_def transact_def setPolicy_def
        setMerchantAllowed_def unlimited_policy_def constructor_def
        demo_addresses at_time_def executeIntent_def Let_def huge_intent_def hashIntent_demo
        max_uint256_simps rollWindowsIfNeeded_def checked_add_def demo_evm_simps)

lemmas history_eval = demo_history_def transact_def at_time_def executeIntent_def Let_def
  demo_intent_def second_intent_def third_intent_def hashIntent_demo demo_vault_simps
  demo_policy_def demo_addresses rollWindowsIfNeeded_def checked_add_def demo_evm_simps
  verifyUserSig_def days_def

lemma demo_vault1_simps:
  "policyOf demo_vault1 alice = demo_policy"
  "merchantAllowed demo_vault1 alice shop"
  "agentAllowed demo_vault1 alice agent"
  "nonces demo_vault1 alice = 1"
  "intentUsed demo_vault1 h \<longleftrightarrow> h = 0"
  "spend demo_vault1 alice = \<lparr>weekStart = 2000, weekSpent = 40, monthStart = 2000, monthSpent = 40\<rparr>"
  by (simp_all add: demo_vault1_def history_eval)

lemma demo_vault2_simps:
  "policyOf demo_vault2 alice = demo_policy"
  "merchantAllowed demo_vault2 alice shop"
  "agentAllowed demo_vault2 alice agent"
  "nonces demo_vault2 alice = 2"
  "intentUsed demo_vault2 h \<longleftrightarrow> h = 0 \<or> h = 1"
  "spend demo_vault2 alice = \<lparr>weekStart = 2000, weekSpent = 90, monthStart = 2000, monthSpent = 90\<rparr>"
  by (simp_all add: demo_vault2_def history_eval)

lemma demo_vault3_simps:
  "policyOf demo_vault3 alice = demo_policy"
  "nonces demo_vault3 alice = 3"
  "spend demo_vault3 alice =
     \<lparr>weekStart = 2507600, weekSpent = 20, monthStart = 2000, monthSpent = 110\<rparr>"
  by (simp_all add: demo_vault3_def history_eval)

lemma demo_reachable:
  "reachable demo_evm demo_vault"
  "reachable demo_evm demo_vault1"
  "reachable demo_evm demo_vault2"
  "reachable demo_evm demo_vault3"
proof -
  show r: "reachable demo_evm demo_vault"
    unfolding demo_vault_def
    by (rule reachable_run)
       (simp_all add: reachable_init demo_setup_def sane_time_def at_time_def)
  show "reachable demo_evm demo_vault1" "reachable demo_evm demo_vault2"
       "reachable demo_evm demo_vault3"
    unfolding demo_vault1_def demo_vault2_def demo_vault3_def
    by (rule reachable_run; simp add: r demo_history_def sane_time_def at_time_def)+
qed

lemma sane_time_demo: "sane_time (of_nat 3000)" "sane_time (of_nat 606800)" "sane_time (of_nat 2594000)"
  by (simp_all add: sane_time_def)

lemma demo_exec1:
  "executeIntent demo_evm (at_time agent 2000) demo_intent [] (demo_vault, ()) =
     Inr ((demo_vault1, ()), [IntentExecuted 0 alice shop usdc 40])"
  by (simp add: demo_vault1_def history_eval)

subsection \<open>Policy store\<close>

text \<open>
  C7. \<^verbatim>\<open>setPolicy\<close> fails with the error for \<^verbatim>\<open>"caps: perTx too high"\<close> whenever the
  proposed \<open>perTxCap\<close> exceeds \<open>weeklyCap\<close> or \<open>monthlyCap\<close>. Otherwise it succeeds, and the
  resulting storage is the old one with the caller's policy replaced by the proposed
  one in a single step: a read of the caller's policy returns it, every other
  account's policy and every other field is as before. So after every successful
  \<^verbatim>\<open>setPolicy\<close> the stored policy has \<open>perTxCap \<le> weeklyCap\<close> and \<open>perTxCap \<le> monthlyCap\<close>.
\<close>

theorem setPolicy_contract:
  "(weeklyCap p < perTxCap p \<or> monthlyCap p < perTxCap p \<longrightarrow>
      setPolicy e p s = Inl CapsPerTxTooHigh) \<and>
   (\<not> (weeklyCap p < perTxCap p \<or> monthlyCap p < perTxCap p) \<longrightarrow>
      (\<exists>evs. setPolicy e p s = Inr (s\<lparr>policyOf := (policyOf s)(msg_sender e := p)\<rparr>, evs))) \<and>
   (\<forall>s' evs. setPolicy e p s = Inr (s', evs) \<longrightarrow>
      policyOf s' (msg_sender e) = p \<and>
      (\<forall>a. a \<noteq> msg_sender e \<longrightarrow> policyOf s' a = policyOf s a) \<and>
      perTxCap (policyOf s' (msg_sender e)) \<le> weeklyCap (policyOf s' (msg_sender e)) \<and>
      perTxCap (policyOf s' (msg_sender e)) \<le> monthlyCap (policyOf s' (msg_sender e)))"
  by (auto simp: setPolicy_def)

theorem setPolicy_contract_witness:
  "weeklyCap bad_policy < perTxCap bad_policy \<and>
   setPolicy (at_time alice 1000) bad_policy (constructor demo_evm) = Inl CapsPerTxTooHigh \<and>
   \<not> weeklyCap demo_policy < perTxCap demo_policy \<and>
   \<not> monthlyCap demo_policy < perTxCap demo_policy \<and>
   setPolicy (at_time alice 1000) demo_policy (constructor demo_evm) =
     Inr ((constructor demo_evm)\<lparr>policyOf := (policyOf (constructor demo_evm))(alice := demo_policy)\<rparr>,
          [PolicyUpdated alice 300 100 50 False]) \<and>
   policyOf ((constructor demo_evm)\<lparr>policyOf := (policyOf (constructor demo_evm))(alice := demo_policy)\<rparr>)
     alice = demo_policy"
  using setPolicy_contract [of bad_policy "at_time alice 1000" "constructor demo_evm"]
        setPolicy_contract [of demo_policy "at_time alice 1000" "constructor demo_evm"]
  by (simp add: bad_policy_def demo_policy_def at_time_def setPolicy_def)

subsection \<open>Signature verifier\<close>

text \<open>
  C9. The verifier is a total function into the booleans: whatever the bytes of the
  signature, it answers and cannot abort. A signature whose length is not 65 is
  rejected whatever \<^verbatim>\<open>ecrecover\<close> would compute, so no recovery is attempted for it.
  The answer is true exactly when the length is 65 and the address recovered from the
  intent hash and the signature (its first 32 bytes as \<open>r\<close>, the next 32 as \<open>s\<close>, the
  last byte as \<open>v\<close>) is the intent's user.
\<close>

theorem verifyUserSig_spec:
  "(length sig \<noteq> 65 \<longrightarrow> (\<forall>rec. \<not> verifyUserSig (ch\<lparr>ecrecover := rec\<rparr>) s i sig)) \<and>
   (verifyUserSig ch s i sig \<longleftrightarrow>
      length sig = 65 \<and>
      ecrecover ch (hashIntent ch s i) (sig ! 64)
        (of_be (take 32 sig)) (of_be (take 32 (drop 32 sig))) = user i)"
proof (cases "length sig = 65")
  case True
  from signature_components[OF True] True show ?thesis
    by (simp add: verifyUserSig_def Let_def)
next
  case False
  then show ?thesis by (simp add: verifyUserSig_def)
qed

theorem verifyUserSig_spec_witness:
  "length ([] :: bytes) \<noteq> 65 \<and>
   \<not> verifyUserSig (demo_evm\<lparr>ecrecover := (\<lambda>digest v r s. alice)\<rparr>) demo_vault demo_intent [] \<and>
   length demo_sig = 65 \<and>
   ecrecover demo_evm (hashIntent demo_evm demo_vault demo_intent)
     (demo_sig ! 64) (of_be (take 32 demo_sig)) (of_be (take 32 (drop 32 demo_sig)))
     = user demo_intent \<and>
   verifyUserSig demo_evm demo_vault demo_intent demo_sig"
  using verifyUserSig_spec [of "[]" demo_evm demo_vault demo_intent]
        verifyUserSig_spec [of demo_sig demo_evm demo_vault demo_intent]
  by (simp add: demo_evm_simps demo_sig_simps demo_intent_def)

subsection \<open>Withdrawal\<close>

text \<open>
  C3. \<^verbatim>\<open>withdraw\<close> checks only that the recipient is not the zero address and that
  the amount is positive, then asks the token to move the amount from the vault's
  own balance to the recipient. It performs no ownership or authorization check:
  the error or the resulting state is the same for any two callers (only the
  \<^verbatim>\<open>Withdrawn\<close> event names the caller), and the same whatever the vault's storage
  holds, which is left as it is. So any caller obtains the transfer whenever the
  recipient is non-zero, the amount is positive and the token carries it out.
\<close>

theorem withdraw_unguarded:
  "(withdraw ch e tok amt to (s, l) =
      (if to = 0 then Inl ToZero
       else if amt = 0 then Inl AmountZero
       else case erc20_transfer ch tok (this ch) to amt l of
              None \<Rightarrow> Inl CalleeReverted
            | Some (ok, l') \<Rightarrow>
                if ok then Inr ((s, l'), [Withdrawn (msg_sender e) tok amt to])
                else Inl TransferFailed)) \<and>
   map_sum id fst (withdraw ch e tok amt to (s, l)) =
     map_sum id fst (withdraw ch e' tok amt to (s, l)) \<and>
   map_sum id (\<lambda>r. (snd (fst r), snd r)) (withdraw ch e tok amt to (s, l)) =
     map_sum id (\<lambda>r. (snd (fst r), snd r)) (withdraw ch e tok amt to (s0, l)) \<and>
   (to \<noteq> 0 \<and> 0 < amt \<and> erc20_transfer ch tok (this ch) to amt l = Some (True, l')
      \<longrightarrow> withdraw ch e tok amt to (s, l) = Inr ((s, l'), [Withdrawn (msg_sender e) tok amt to]))"
  by (auto simp: withdraw_def word_greater_zero_iff split: option.splits)

theorem withdraw_unguarded_witness:
  "shop \<noteq> 0 \<and> (0 :: uint256) < 40 \<and>
   erc20_transfer demo_evm usdc (this demo_evm) shop 40 () = Some (True, ()) \<and>
   withdraw demo_evm (at_time agent 2000) usdc 40 shop (demo_vault, ()) =
     Inr ((demo_vault, ()), [Withdrawn agent usdc 40 shop]) \<and>
   map_sum id fst (withdraw demo_evm (at_time agent 2000) usdc 40 shop (demo_vault, ())) =
     map_sum id fst (withdraw demo_evm (at_time alice 2000) usdc 40 shop (demo_vault, ()))"
  using withdraw_unguarded [where ch = demo_evm and e = "at_time agent 2000"
          and e' = "at_time alice 2000" and tok = usdc and amt = 40 and to = shop
          and s = demo_vault and l = "()" and l' = "()" and ?s0.0 = demo_vault]
  by (simp add: demo_evm_simps demo_addresses at_time_def withdraw_def)

subsection \<open>Validation order\<close>

text \<open>
  C6. When the intent's nonce differs from the account's current nonce,
  \<^verbatim>\<open>executeIntent\<close> fails, and the error is that of the first failing check in the
  order deadline, user, amount, per-transaction cap, merchant, nonce: it is the
  error for \<^verbatim>\<open>"bad nonce"\<close> as soon as the five checks before the nonce pass. Neither
  the caller nor the signature occurs in the result, so the authorization is never
  consulted.
\<close>

theorem nonce_checked_before_authorization:
  assumes "nonce i \<noteq> nonces s (user i)"
  shows "executeIntent ch e i sig (s, l) =
     Inl (if \<not> block_timestamp e \<le> deadline i then Expired
          else if user i = 0 then UserZero
          else if amount i = 0 then AmountZero
          else if perTxCap (policyOf s (user i)) < amount i then PerTxCap
          else if \<not> merchantAllowed s (user i) (merchant i) then MerchantNotAllowed
          else BadNonce)"
  using assms by (simp add: executeIntent_def Let_def word_greater_zero_iff not_le)

theorem nonce_checked_before_authorization_witness:
  "nonce (demo_intent\<lparr>nonce := 7\<rparr>) \<noteq> nonces demo_vault (user (demo_intent\<lparr>nonce := 7\<rparr>)) \<and>
   executeIntent demo_evm (at_time alice 2000) (demo_intent\<lparr>nonce := 7\<rparr>) demo_sig
     (demo_vault, ()) = Inl BadNonce"
  using nonce_checked_before_authorization [of "demo_intent\<lparr>nonce := 7\<rparr>" demo_vault demo_evm
          "at_time alice 2000" demo_sig "()"]
  by (simp add: demo_intent_def demo_vault_simps demo_addresses at_time_def demo_policy_def)

subsection \<open>Authorization\<close>

text \<open>
  C1. Once the checks that precede it have passed (deadline, user, amount,
  per-transaction cap, merchant, nonce, intent not yet used), the authorization
  decision of \<^verbatim>\<open>executeIntent\<close> is the three-rule precedence: with
  \<open>requireUserSig\<close> the signature must verify against the intent's user, whoever
  calls; otherwise the owner or an allowlisted agent passes with an empty signature
  and must present a verifying one if it presents any; otherwise the signature must
  verify. When the rules reject, the call fails with one of the three authorization
  errors; when they accept, it fails with none of them.
\<close>

theorem executeIntent_authorization:
  assumes "block_timestamp e \<le> deadline i" and "user i \<noteq> 0" and "0 < amount i"
    and "amount i \<le> perTxCap (policyOf s (user i))"
    and "merchantAllowed s (user i) (merchant i)"
    and "nonce i = nonces s (user i)"
    and "\<not> intentUsed s (hashIntent ch s i)"
  shows
    "(\<not> authorizationEvaluator (requireUserSig (policyOf s (user i)))
          (msg_sender e = user i) (agentAllowed s (user i) (msg_sender e))
          (sig \<noteq> []) (verifyUserSig ch s i sig) \<longrightarrow>
        executeIntent ch e i sig (s, l) =
          Inl (if requireUserSig (policyOf s (user i)) then SigRequiredInvalid
               else if msg_sender e = user i \<or> agentAllowed s (user i) (msg_sender e)
               then SigInvalid else NotAuthorized)) \<and>
     (authorizationEvaluator (requireUserSig (policyOf s (user i)))
          (msg_sender e = user i) (agentAllowed s (user i) (msg_sender e))
          (sig \<noteq> []) (verifyUserSig ch s i sig) \<longrightarrow>
        executeIntent ch e i sig (s, l) \<noteq> Inl SigRequiredInvalid \<and>
        executeIntent ch e i sig (s, l) \<noteq> Inl NotAuthorized \<and>
        executeIntent ch e i sig (s, l) \<noteq> Inl SigInvalid)"
  using assms
  unfolding executeIntent_def Let_def authorizationEvaluator_def
  by (auto simp: checked_add_Inl split: sum.splits option.splits dest: rollWindowsIfNeeded_Inl)

theorem executeIntent_authorization_witness:
  "block_timestamp (at_time shop 2000) \<le> deadline demo_intent \<and> user demo_intent \<noteq> 0 \<and>
   0 < amount demo_intent \<and>
   amount demo_intent \<le> perTxCap (policyOf demo_vault (user demo_intent)) \<and>
   merchantAllowed demo_vault (user demo_intent) (merchant demo_intent) \<and>
   nonce demo_intent = nonces demo_vault (user demo_intent) \<and>
   \<not> intentUsed demo_vault (hashIntent demo_evm demo_vault demo_intent) \<and>
   \<not> authorizationEvaluator False False False False False \<and>
   executeIntent demo_evm (at_time shop 2000) demo_intent [] (demo_vault, ()) = Inl NotAuthorized \<and>
   \<not> authorizationEvaluator False False True True False \<and>
   executeIntent demo_evm (at_time agent 2000) demo_intent [0] (demo_vault, ()) = Inl SigInvalid \<and>
   authorizationEvaluator False False True False False \<and>
   executeIntent demo_evm (at_time agent 2000) demo_intent [] (demo_vault, ()) \<noteq> Inl NotAuthorized \<and>
   authorizationEvaluator False False False True True \<and>
   executeIntent demo_evm (at_time shop 2000) demo_intent demo_sig (demo_vault, ())
     \<noteq> Inl NotAuthorized"
  using executeIntent_authorization [of "at_time shop 2000" demo_intent demo_vault demo_evm "[]" "()"]
        executeIntent_authorization [of "at_time agent 2000" demo_intent demo_vault demo_evm "[0]" "()"]
        executeIntent_authorization [of "at_time agent 2000" demo_intent demo_vault demo_evm "[]" "()"]
        executeIntent_authorization [of "at_time shop 2000" demo_intent demo_vault demo_evm demo_sig "()"]
  by (simp add: at_time_def demo_intent_def demo_vault_simps hashIntent_demo verifyUserSig_def
        demo_policy_def demo_addresses demo_evm_simps demo_sig_simps authorizationEvaluator_def)

subsection \<open>Rollback\<close>

text \<open>
  C4. A transaction whose \<^verbatim>\<open>executeIntent\<close> call aborts, for whatever reason, leaves
  the vault's storage and the ledger exactly as they were. When the abort comes from
  the token transfer (it returned false or reverted), the intent is therefore not
  consumed: its hash is not in the used set, the account's nonce is still the
  intent's nonce, and the same intent with the same signature, at the same time and
  on the same state, succeeds as soon as the token carries out the transfer.
\<close>

theorem transfer_failure_rolls_back:
  fixes ch :: "'l evm"
  assumes "transact ch e (ExecuteIntent i sig) (s, l) = (st', Reverted err)"
  shows "st' = (s, l) \<and>
     (err = TransferFailed \<or> err = CalleeReverted \<longrightarrow>
        \<not> intentUsed (fst st') (hashIntent ch (fst st') i) \<and>
        nonces (fst st') (user i) = nonce i \<and>
        (t (token i) (this ch) (merchant i) (amount i) l = Some (True, l') \<longrightarrow>
           (\<exists>s''. transact (ch\<lparr>erc20_transfer := t\<rparr>) e (ExecuteIntent i sig) st' =
              ((s'', l'), Succeeded [IntentExecuted (hashIntent ch s i) (user i) (merchant i)
                 (token i) (amount i)]))))"
proof (intro conjI impI)
  show st: "st' = (s, l)"
    using assms by (auto simp: transact_def split: sum.splits prod.splits)
  assume "err = TransferFailed \<or> err = CalleeReverted"
  with assms have f: "executeIntent ch e i sig (s, l) = Inl err"
      "err = TransferFailed \<or> err = CalleeReverted"
    by (auto simp: transact_def split: sum.splits prod.splits)
  then show "\<not> intentUsed (fst st') (hashIntent ch (fst st') i)"
    unfolding st executeIntent_def Let_def
    by (auto split: if_splits)
  from f show "nonces (fst st') (user i) = nonce i"
    unfolding st executeIntent_def Let_def
    by (auto split: if_splits)
  assume t: "t (token i) (this ch) (merchant i) (amount i) l = Some (True, l')"
  from f obtain s4 evs l4 where
    c: "executeIntent (ch\<lparr>erc20_transfer := (\<lambda>tok caller to amt x. Some (True, x))\<rparr>) e i sig (s, l)
          = Inr ((s4, l4), evs)"
    using executeIntent_interaction[of ch e i sig s l l]
    by (auto split: sum.splits option.splits prod.splits if_splits dest: rollWindowsIfNeeded_Inl
             simp: executeIntent_def Let_def checked_add_Inl)
  have "executeIntent (ch\<lparr>erc20_transfer := t\<rparr>) e i sig (s, l) = Inr ((s4, l'), evs)"
    using executeIntent_interaction[of "ch\<lparr>erc20_transfer := t\<rparr>" e i sig s l l] c t by simp
  moreover have "evs = [IntentExecuted (hashIntent ch s i) (user i) (merchant i) (token i) (amount i)]"
    using executeIntent_success[OF c] by simp
  ultimately show "\<exists>s''. transact (ch\<lparr>erc20_transfer := t\<rparr>) e (ExecuteIntent i sig) st' =
            ((s'', l'), Succeeded [IntentExecuted (hashIntent ch s i) (user i) (merchant i)
               (token i) (amount i)])"
    by (simp add: transact_def st)
qed

theorem transfer_failure_rolls_back_witness:
  "transact failing_evm (at_time agent 2000) (ExecuteIntent demo_intent []) (demo_vault, ()) =
     ((demo_vault, ()), Reverted TransferFailed) \<and>
   \<not> intentUsed demo_vault (hashIntent failing_evm demo_vault demo_intent) \<and>
   nonces demo_vault (user demo_intent) = nonce demo_intent \<and>
   erc20_transfer demo_evm (token demo_intent) (this failing_evm) (merchant demo_intent)
     (amount demo_intent) () = Some (True, ()) \<and>
   (\<exists>s''. transact demo_evm (at_time agent 2000) (ExecuteIntent demo_intent []) (demo_vault, ()) =
      ((s'', ()), Succeeded [IntentExecuted (hashIntent failing_evm demo_vault demo_intent)
         (user demo_intent) (merchant demo_intent) (token demo_intent) (amount demo_intent)]))"
proof -
  have f: "transact failing_evm (at_time agent 2000) (ExecuteIntent demo_intent []) (demo_vault, ()) =
     ((demo_vault, ()), Reverted TransferFailed)"
    by (simp add: transact_def demo_eval)
  show ?thesis
    using transfer_failure_rolls_back [OF f, of "erc20_transfer demo_evm" "()"] f
    by (simp add: failing_repaired demo_evm_simps)
qed

subsection \<open>Replay protection\<close>

text \<open>
  C2. After a successful \<^verbatim>\<open>executeIntent\<close> the account's nonce, which was the
  intent's nonce, is larger by exactly one (without wrapping around), and the
  intent's hash is in the used set. Submitting the same intent again, by any caller
  with any signature before the deadline, fails on the nonce check; if the nonce is
  put back to the intent's nonce from outside, it fails on the used-intent check.
  After any further sequence of transactions the intent still cannot be executed:
  no intent takes effect twice.
\<close>

theorem executed_intent_is_consumed:
  assumes ok: "executeIntent ch e i sig (s, l) = Inr ((s', l'), evs)"
  shows "nonces s (user i) = nonce i \<and>
     unat (nonces s' (user i)) = unat (nonces s (user i)) + 1 \<and>
     intentUsed s' (hashIntent ch s' i) \<and>
     (block_timestamp e2 \<le> deadline i \<longrightarrow>
        executeIntent ch e2 i sig2 (s', l2) = Inl BadNonce) \<and>
     (block_timestamp e2 \<le> deadline i \<longrightarrow>
        executeIntent ch e2 i sig2 (s'\<lparr>nonces := (nonces s')(user i := nonce i)\<rparr>, l2)
          = Inl IntentUsed) \<and>
     (\<exists>err. executeIntent ch e2 i sig2 (run ch tr (s', l')) = Inl err)"
proof -
  note S = executeIntent_success[OF ok]
  from S obtain s2 where
    roll: "rollWindowsIfNeeded e (user i)
             (s\<lparr>intentUsed := (intentUsed s)(hashIntent ch s i := True)\<rparr>) = Inr s2"
    and n: "unat (nonces s (user i)) + 1 < 2 ^ 256"
    and s': "s' = s2\<lparr>spend := (spend s2)(user i := (spend s2 (user i))
                      \<lparr>weekSpent := weekSpent (spend s2 (user i)) + amount i,
                       monthSpent := monthSpent (spend s2 (user i)) + amount i\<rparr>),
                   nonces := (nonces s2)(user i := nonces s (user i) + 1)\<rparr>"
    by blast
  from rollWindowsIfNeeded_frame[OF roll] obtain w2 where
    s2: "s2 = s\<lparr>intentUsed := (intentUsed s)(hashIntent ch s i := True),
                 spend := (spend s)(user i := w2)\<rparr>"
    by auto
  have nonce_s: "nonces s (user i) = nonce i" using S by simp
  have n1: "unat (nonces s (user i) + 1) = unat (nonces s (user i)) + 1"
    using unat_checked[of "nonces s (user i)" 1] n by simp
  then have neq: "nonces s (user i) + 1 \<noteq> nonces s (user i)"
    by (metis Suc_eq_plus1 n_not_Suc_n)
  have used: "intentUsed s' (hashIntent ch s' i)"
    by (simp add: s' s2)
  have pol: "policyOf s' = policyOf s" "merchantAllowed s' = merchantAllowed s"
    by (simp_all add: s' s2)
  have 1: "unat (nonces s' (user i)) = unat (nonces s (user i)) + 1"
    using n1 by (simp add: s' s2)
  have 2: "block_timestamp e2 \<le> deadline i \<longrightarrow>
        executeIntent ch e2 i sig2 (s', l2) = Inl BadNonce"
    using S neq nonce_s by (simp add: executeIntent_def Let_def pol) (simp add: s' s2)
  have 3: "block_timestamp e2 \<le> deadline i \<longrightarrow>
        executeIntent ch e2 i sig2 (s'\<lparr>nonces := (nonces s')(user i := nonce i)\<rparr>, l2)
          = Inl IntentUsed"
    using S used by (simp add: executeIntent_def Let_def pol)
  have "intentUsed (fst (run ch tr (s', l'))) (hashIntent ch s' i)"
    using run_consumed[of ch tr "(s', l')" "hashIntent ch s' i"] used by simp
  moreover have "hashIntent ch (fst (run ch tr (s', l'))) i = hashIntent ch s' i"
    using run_consumed[of ch tr "(s', l')"] by (intro hashIntent_cong) simp
  ultimately have 4: "\<exists>err. executeIntent ch e2 i sig2 (run ch tr (s', l')) = Inl err"
    using executeIntent_used[of "fst (run ch tr (s', l'))" ch i e2 sig2 "snd (run ch tr (s', l'))"]
    by simp
  from nonce_s 1 used 2 3 4 show ?thesis by blast
qed

theorem executed_intent_is_consumed_witness:
  "executeIntent demo_evm (at_time agent 2000) demo_intent [] (demo_vault, ()) =
     Inr ((demo_vault1, ()), [IntentExecuted 0 alice shop usdc 40]) \<and>
   nonces demo_vault alice = 0 \<and> nonces demo_vault1 alice = 1 \<and>
   intentUsed demo_vault1 (hashIntent demo_evm demo_vault1 demo_intent) \<and>
   block_timestamp (at_time alice 3000) \<le> deadline demo_intent \<and>
   executeIntent demo_evm (at_time alice 3000) demo_intent demo_sig (demo_vault1, ()) = Inl BadNonce \<and>
   executeIntent demo_evm (at_time alice 3000) demo_intent demo_sig
     (demo_vault1\<lparr>nonces := (nonces demo_vault1)(alice := 0)\<rparr>, ()) = Inl IntentUsed \<and>
   (\<exists>err. executeIntent demo_evm (at_time alice 3000) demo_intent demo_sig
      (run demo_evm [(at_time alice 2500, SetPolicy demo_policy)] (demo_vault1, ())) = Inl err)"
  using executed_intent_is_consumed [OF demo_exec1, where ?e2.0 = "at_time alice 3000"
          and ?sig2.0 = demo_sig and ?l2.0 = "()"
          and tr = "[(at_time alice 2500, SetPolicy demo_policy)]"]
        demo_exec1
  by (simp add: demo_vault_simps demo_vault1_simps demo_intent_def at_time_def)

subsection \<open>Spend caps\<close>

text \<open>
  C5, amended. After every successful \<^verbatim>\<open>executeIntent\<close> the account's \<open>weekSpent\<close>
  is at most the \<open>weeklyCap\<close> and its \<open>monthSpent\<close> at most the \<open>monthlyCap\<close> of its
  policy, and both counters are those of the rolled window plus exactly the amount;
  the policies and the windows of the other accounts are as before.
  Once validation and authorization have passed, the reservation on the rolled
  window fails on the weekly cap when \<open>weekSpent + amount\<close> fits in 256 bits and
  exceeds \<open>weeklyCap\<close>; else on the monthly cap when \<open>monthSpent + amount\<close> fits in 256
  bits and exceeds \<open>monthlyCap\<close>; a sum that does not fit in 256 bits aborts the call
  with an arithmetic panic instead of a cap error. When both sums are within the
  caps, the call goes on to the nonce and the transfer and, these succeeding,
  commits both counters increased by exactly the amount.
\<close>

theorem spend_reservation:
  "(executeIntent ch e i sig (s, l) = Inr ((s', l'), evs) \<longrightarrow>
      weekSpent (spend s' (user i)) \<le> weeklyCap (policyOf s' (user i)) \<and>
      monthSpent (spend s' (user i)) \<le> monthlyCap (policyOf s' (user i)) \<and>
      policyOf s' = policyOf s \<and>
      (\<forall>v. v \<noteq> user i \<longrightarrow> spend s' v = spend s v) \<and>
      (\<exists>s2. rollWindowsIfNeeded e (user i) s = Inr s2 \<and>
         unat (weekSpent (spend s' (user i))) =
           unat (weekSpent (spend s2 (user i))) + unat (amount i) \<and>
         unat (monthSpent (spend s' (user i))) =
           unat (monthSpent (spend s2 (user i))) + unat (amount i))) \<and>
   (block_timestamp e \<le> deadline i \<and> user i \<noteq> 0 \<and> 0 < amount i \<and>
    amount i \<le> perTxCap (policyOf s (user i)) \<and>
    merchantAllowed s (user i) (merchant i) \<and>
    nonce i = nonces s (user i) \<and>
    \<not> intentUsed s (hashIntent ch s i) \<and>
    authorizationEvaluator (requireUserSig (policyOf s (user i)))
      (msg_sender e = user i) (agentAllowed s (user i) (msg_sender e))
      (sig \<noteq> []) (verifyUserSig ch s i sig) \<and>
    rollWindowsIfNeeded e (user i) s = Inr s2 \<longrightarrow>
      (unat (weekSpent (spend s2 (user i))) + unat (amount i) < 2 ^ 256 \<and>
       unat (weeklyCap (policyOf s (user i)))
         < unat (weekSpent (spend s2 (user i))) + unat (amount i) \<longrightarrow>
         executeIntent ch e i sig (s, l) = Inl WeeklyCap) \<and>
      (unat (weekSpent (spend s2 (user i))) + unat (amount i)
         \<le> unat (weeklyCap (policyOf s (user i))) \<and>
       unat (monthSpent (spend s2 (user i))) + unat (amount i) < 2 ^ 256 \<and>
       unat (monthlyCap (policyOf s (user i)))
         < unat (monthSpent (spend s2 (user i))) + unat (amount i) \<longrightarrow>
         executeIntent ch e i sig (s, l) = Inl MonthlyCap) \<and>
      (2 ^ 256 \<le> unat (weekSpent (spend s2 (user i))) + unat (amount i) \<or>
       unat (weekSpent (spend s2 (user i))) + unat (amount i)
         \<le> unat (weeklyCap (policyOf s (user i))) \<and>
       2 ^ 256 \<le> unat (monthSpent (spend s2 (user i))) + unat (amount i) \<longrightarrow>
         executeIntent ch e i sig (s, l) = Inl Panic) \<and>
      (unat (weekSpent (spend s2 (user i))) + unat (amount i)
         \<le> unat (weeklyCap (policyOf s (user i))) \<and>
       unat (monthSpent (spend s2 (user i))) + unat (amount i)
         \<le> unat (monthlyCap (policyOf s (user i))) \<and>
       unat (nonces s (user i)) + 1 < 2 ^ 256 \<and>
       erc20_transfer ch (token i) (this ch) (merchant i) (amount i) l = Some (True, l2) \<longrightarrow>
         (\<exists>s3. executeIntent ch e i sig (s, l) =
                 Inr ((s3, l2), [IntentExecuted (hashIntent ch s i) (user i) (merchant i)
                    (token i) (amount i)]) \<and>
               unat (weekSpent (spend s3 (user i))) =
                 unat (weekSpent (spend s2 (user i))) + unat (amount i) \<and>
               unat (monthSpent (spend s3 (user i))) =
                 unat (monthSpent (spend s2 (user i))) + unat (amount i))))"
proof (intro conjI impI)
  assume ok: "executeIntent ch e i sig (s, l) = Inr ((s', l'), evs)"
  from executeIntent_success[OF ok] obtain s1 where
    roll1: "rollWindowsIfNeeded e (user i)
             (s\<lparr>intentUsed := (intentUsed s)(hashIntent ch s i := True)\<rparr>) = Inr s1"
    and fw: "unat (weekSpent (spend s1 (user i))) + unat (amount i) < 2 ^ 256"
    and cw: "weekSpent (spend s1 (user i)) + amount i \<le> weeklyCap (policyOf s (user i))"
    and fm: "unat (monthSpent (spend s1 (user i))) + unat (amount i) < 2 ^ 256"
    and cm: "monthSpent (spend s1 (user i)) + amount i \<le> monthlyCap (policyOf s (user i))"
    and s': "s' = s1\<lparr>spend := (spend s1)(user i := (spend s1 (user i))
                      \<lparr>weekSpent := weekSpent (spend s1 (user i)) + amount i,
                       monthSpent := monthSpent (spend s1 (user i)) + amount i\<rparr>),
                   nonces := (nonces s1)(user i := nonces s (user i) + 1)\<rparr>"
    by blast
  from roll1 obtain s2 where roll: "rollWindowsIfNeeded e (user i) s = Inr s2"
    and s1: "s1 = s2\<lparr>intentUsed := (intentUsed s)(hashIntent ch s i := True)\<rparr>"
    by (auto simp: rollWindowsIfNeeded_intentUsed map_sum_def split: sum.splits)
  from rollWindowsIfNeeded_frame[OF roll] have pol: "policyOf s2 = policyOf s" by auto
  show "weekSpent (spend s' (user i)) \<le> weeklyCap (policyOf s' (user i))"
    using cw by (simp add: s' s1 pol)
  show "monthSpent (spend s' (user i)) \<le> monthlyCap (policyOf s' (user i))"
    using cm by (simp add: s' s1 pol)
  show "policyOf s' = policyOf s"
    by (simp add: s' s1 pol)
  show "\<forall>v. v \<noteq> user i \<longrightarrow> spend s' v = spend s v"
    using rollWindowsIfNeeded_frame[OF roll] by (auto simp: s' s1)
  show "\<exists>s2. rollWindowsIfNeeded e (user i) s = Inr s2 \<and>
         unat (weekSpent (spend s' (user i))) =
           unat (weekSpent (spend s2 (user i))) + unat (amount i) \<and>
         unat (monthSpent (spend s' (user i))) =
           unat (monthSpent (spend s2 (user i))) + unat (amount i)"
    using roll fw fm by (intro exI[of _ s2]) (simp add: s' s1 unat_checked)
next
  assume v: "block_timestamp e \<le> deadline i \<and> user i \<noteq> 0 \<and> 0 < amount i \<and>
    amount i \<le> perTxCap (policyOf s (user i)) \<and>
    merchantAllowed s (user i) (merchant i) \<and>
    nonce i = nonces s (user i) \<and>
    \<not> intentUsed s (hashIntent ch s i) \<and>
    authorizationEvaluator (requireUserSig (policyOf s (user i)))
      (msg_sender e = user i) (agentAllowed s (user i) (msg_sender e))
      (sig \<noteq> []) (verifyUserSig ch s i sig) \<and>
    rollWindowsIfNeeded e (user i) s = Inr s2"
  then have E: "executeIntent ch e i sig (s, l) =
     (if \<not> unat (weekSpent (spend s2 (user i))) + unat (amount i) < 2 ^ 256 then Inl Panic
      else if \<not> weekSpent (spend s2 (user i)) + amount i \<le> weeklyCap (policyOf s (user i))
      then Inl WeeklyCap
      else if \<not> unat (monthSpent (spend s2 (user i))) + unat (amount i) < 2 ^ 256 then Inl Panic
      else if \<not> monthSpent (spend s2 (user i)) + amount i \<le> monthlyCap (policyOf s (user i))
      then Inl MonthlyCap
      else if \<not> unat (nonces s (user i)) + 1 < 2 ^ 256 then Inl Panic
      else case erc20_transfer ch (token i) (this ch) (merchant i) (amount i) l of
             None \<Rightarrow> Inl CalleeReverted
           | Some (ok, l') \<Rightarrow>
               if \<not> ok then Inl TransferFailed
               else Inr ((s2\<lparr>intentUsed := (intentUsed s)(hashIntent ch s i := True),
                            spend := (spend s2)(user i := (spend s2 (user i))
                              \<lparr>weekSpent := weekSpent (spend s2 (user i)) + amount i,
                               monthSpent := monthSpent (spend s2 (user i)) + amount i\<rparr>),
                            nonces := (nonces s)(user i := nonces s (user i) + 1)\<rparr>, l'),
                         [IntentExecuted (hashIntent ch s i) (user i) (merchant i) (token i)
                            (amount i)]))"
    by (intro executeIntent_validated) simp_all
  {
    assume "unat (weekSpent (spend s2 (user i))) + unat (amount i) < 2 ^ 256 \<and>
       unat (weeklyCap (policyOf s (user i)))
         < unat (weekSpent (spend s2 (user i))) + unat (amount i)"
    then show "executeIntent ch e i sig (s, l) = Inl WeeklyCap"
      by (simp add: E word_le_nat_alt unat_checked)
  next
    assume "unat (weekSpent (spend s2 (user i))) + unat (amount i)
         \<le> unat (weeklyCap (policyOf s (user i))) \<and>
       unat (monthSpent (spend s2 (user i))) + unat (amount i) < 2 ^ 256 \<and>
       unat (monthlyCap (policyOf s (user i)))
         < unat (monthSpent (spend s2 (user i))) + unat (amount i)"
    moreover have "unat (weeklyCap (policyOf s (user i))) < 2 ^ 256"
      using unsigned_less[of "weeklyCap (policyOf s (user i))"] by simp
    ultimately show "executeIntent ch e i sig (s, l) = Inl MonthlyCap"
      by (simp add: E word_le_nat_alt unat_checked)
  next
    assume "2 ^ 256 \<le> unat (weekSpent (spend s2 (user i))) + unat (amount i) \<or>
       unat (weekSpent (spend s2 (user i))) + unat (amount i)
         \<le> unat (weeklyCap (policyOf s (user i))) \<and>
       2 ^ 256 \<le> unat (monthSpent (spend s2 (user i))) + unat (amount i)"
    moreover have "unat (weeklyCap (policyOf s (user i))) < 2 ^ 256"
      using unsigned_less[of "weeklyCap (policyOf s (user i))"] by simp
    ultimately show "executeIntent ch e i sig (s, l) = Inl Panic"
      by (auto simp: E word_le_nat_alt unat_checked)
  next
    assume a: "unat (weekSpent (spend s2 (user i))) + unat (amount i)
         \<le> unat (weeklyCap (policyOf s (user i))) \<and>
       unat (monthSpent (spend s2 (user i))) + unat (amount i)
         \<le> unat (monthlyCap (policyOf s (user i))) \<and>
       unat (nonces s (user i)) + 1 < 2 ^ 256 \<and>
       erc20_transfer ch (token i) (this ch) (merchant i) (amount i) l = Some (True, l2)"
    have "unat (weeklyCap (policyOf s (user i))) < 2 ^ 256"
        "unat (monthlyCap (policyOf s (user i))) < 2 ^ 256"
      using unsigned_less[of "weeklyCap (policyOf s (user i))"]
            unsigned_less[of "monthlyCap (policyOf s (user i))"] by simp_all
    with a have f: "unat (weekSpent (spend s2 (user i))) + unat (amount i) < 2 ^ 256"
        "unat (monthSpent (spend s2 (user i))) + unat (amount i) < 2 ^ 256"
      by simp_all
    with a show "\<exists>s3. executeIntent ch e i sig (s, l) =
                 Inr ((s3, l2), [IntentExecuted (hashIntent ch s i) (user i) (merchant i)
                    (token i) (amount i)]) \<and>
               unat (weekSpent (spend s3 (user i))) =
                 unat (weekSpent (spend s2 (user i))) + unat (amount i) \<and>
               unat (monthSpent (spend s3 (user i))) =
                 unat (monthSpent (spend s2 (user i))) + unat (amount i)"
      by (simp add: E word_le_nat_alt unat_checked)
  }
qed

theorem spend_reservation_witness:
  "executeIntent demo_evm (at_time agent 2000) demo_intent [] (demo_vault, ()) =
     Inr ((demo_vault1, ()), [IntentExecuted 0 alice shop usdc 40]) \<and>
   weekSpent (spend demo_vault1 alice) \<le> weeklyCap (policyOf demo_vault1 alice) \<and>
   monthSpent (spend demo_vault1 alice) \<le> monthlyCap (policyOf demo_vault1 alice) \<and>
   weekSpent (spend demo_vault1 alice) = 40 \<and>
   block_timestamp (at_time agent 3000) \<le> deadline third_intent \<and>
   user third_intent \<noteq> 0 \<and> 0 < amount third_intent \<and>
   amount third_intent \<le> perTxCap (policyOf demo_vault2 (user third_intent)) \<and>
   merchantAllowed demo_vault2 (user third_intent) (merchant third_intent) \<and>
   nonce third_intent = nonces demo_vault2 (user third_intent) \<and>
   \<not> intentUsed demo_vault2 (hashIntent demo_evm demo_vault2 third_intent) \<and>
   authorizationEvaluator False False True False False \<and>
   rollWindowsIfNeeded (at_time agent 3000) alice demo_vault2 =
     Inr (demo_vault2\<lparr>spend := (spend demo_vault2)(alice :=
            \<lparr>weekStart = 2000, weekSpent = 90, monthStart = 2000, monthSpent = 90\<rparr>)\<rparr>) \<and>
   unat (weeklyCap (policyOf demo_vault2 alice)) < unat (90 :: uint256) + unat (amount third_intent) \<and>
   executeIntent demo_evm (at_time agent 3000) third_intent [] (demo_vault2, ()) = Inl WeeklyCap"
proof -
  have r: "rollWindowsIfNeeded (at_time agent 3000) (user third_intent) demo_vault2 =
     Inr (demo_vault2\<lparr>spend := (spend demo_vault2)(alice :=
            \<lparr>weekStart = 2000, weekSpent = 90, monthStart = 2000, monthSpent = 90\<rparr>)\<rparr>)"
    by (simp add: rollWindowsIfNeeded_def demo_vault2_simps third_intent_def at_time_def
          checked_add_def days_def)
  show ?thesis
    using spend_reservation [where ch = demo_evm and e = "at_time agent 2000" and i = demo_intent
            and sig = "[]" and s = demo_vault and l = "()" and s' = demo_vault1 and l' = "()"
            and evs = "[IntentExecuted 0 alice shop usdc 40]"]
          spend_reservation [where ch = demo_evm and e = "at_time agent 3000" and i = third_intent
            and sig = "[]" and s = demo_vault2 and l = "()"
            and ?s2.0 = "demo_vault2\<lparr>spend := (spend demo_vault2)(alice :=
              \<lparr>weekStart = 2000, weekSpent = 90, monthStart = 2000, monthSpent = 90\<rparr>)\<rparr>"]
          demo_exec1 r
    by (simp add: demo_vault_simps demo_vault1_simps demo_vault2_simps third_intent_def
          demo_intent_def at_time_def demo_policy_def demo_addresses hashIntent_demo
          authorizationEvaluator_def)
qed

text \<open>
  C5 as stated does not hold of a sum that overflows: an account without limits
  that has spent \<open>2 ^ 256 - 1\<close> in the week submits an intent for 1; the sum exceeds
  the weekly cap, and the call aborts with a panic, not with the weekly-cap error.
\<close>

theorem reservation_overflow_counterexample:
  "unat (weeklyCap (policyOf overflow_vault alice))
     < unat (weekSpent (spend overflow_vault alice)) + unat (amount tiny_intent) \<and>
   executeIntent demo_evm (at_time alice 2000) tiny_intent [] (overflow_vault, ()) = Inl Panic \<and>
   executeIntent demo_evm (at_time alice 2000) tiny_intent [] (overflow_vault, ()) \<noteq> Inl WeeklyCap"
  by (simp add: overflow_vault_simps executeIntent_def Let_def tiny_intent_def hashIntent_demo
        at_time_def unlimited_policy_def max_uint256_simps demo_addresses
        rollWindowsIfNeeded_def checked_add_def days_def)

subsection \<open>Window rollover\<close>

text \<open>
  C8. In every reachable state and at every block time, the rollover at the start
  of a spend attempt succeeds and leaves the account's window as the rule of the
  specification says: an unset window gets both starts set to now with nothing
  spent; otherwise the week restarts, with \<open>weekSpent\<close> zero, when \<open>now - weekStart\<close> is
  at least seven days, and the month, with \<open>monthSpent\<close> zero, when \<open>now - monthStart\<close>
  is at least thirty days, each whether or not the other does. The rollover consults
  no cap, and the intent that initializes the window cannot fail on a cap.
\<close>

theorem rollWindowsIfNeeded_spec:
  assumes "reachable ch s" and "sane_time (block_timestamp e)"
  shows "rollWindowsIfNeeded e u s =
       Inr (s\<lparr>spend := (spend s)(u := rollIfExpired (spend s u) (block_timestamp e))\<rparr>) \<and>
     (weekStart (spend s (user i)) = 0 \<longrightarrow>
        executeIntent ch e i sig (s, l) \<noteq> Inl WeeklyCap \<and>
        executeIntent ch e i sig (s, l) \<noteq> Inl MonthlyCap)"
proof (intro conjI impI)
  show "rollWindowsIfNeeded e u s =
       Inr (s\<lparr>spend := (spend s)(u := rollIfExpired (spend s u) (block_timestamp e))\<rparr>)"
    by (rule roll_spec[OF reachable_window_inv[OF assms(1)] assms(2)])
next
  assume unset: "weekStart (spend s (user i)) = 0"
  have r: "rollWindowsIfNeeded e (user i) s =
       Inr (s\<lparr>spend := (spend s)(user i :=
              \<lparr>weekStart = block_timestamp e, weekSpent = 0,
               monthStart = block_timestamp e, monthSpent = 0\<rparr>)\<rparr>)"
    using roll_spec[OF reachable_window_inv[OF assms(1)] assms(2), of "user i"] unset
    by (simp add: rollIfExpired_def)
  have p: "perTxCap (policyOf s (user i)) \<le> weeklyCap (policyOf s (user i))"
      "perTxCap (policyOf s (user i)) \<le> monthlyCap (policyOf s (user i))"
    using reachable_policy_inv[OF assms(1), of "user i"] by (simp_all add: policy_inv_def)
  show "executeIntent ch e i sig (s, l) \<noteq> Inl WeeklyCap"
  proof
    assume "executeIntent ch e i sig (s, l) = Inl WeeklyCap"
    from executeIntent_cap_error[OF this] r p show False by auto
  qed
  show "executeIntent ch e i sig (s, l) \<noteq> Inl MonthlyCap"
  proof
    assume "executeIntent ch e i sig (s, l) = Inl MonthlyCap"
    from executeIntent_cap_error[OF this] r p show False by auto
  qed
qed

theorem rollWindowsIfNeeded_spec_witness:
  "reachable demo_evm demo_vault2 \<and> reachable demo_evm demo_vault3 \<and>
   reachable demo_evm demo_vault \<and>
   sane_time (block_timestamp (at_time alice 606800)) \<and>
   sane_time (block_timestamp (at_time alice 2594000)) \<and>
   sane_time (block_timestamp (at_time alice 3000)) \<and>
   rollWindowsIfNeeded (at_time alice 606800) alice demo_vault2 =
     Inr (demo_vault2\<lparr>spend := (spend demo_vault2)(alice :=
            \<lparr>weekStart = 606800, weekSpent = 0, monthStart = 2000, monthSpent = 90\<rparr>)\<rparr>) \<and>
   rollWindowsIfNeeded (at_time alice 2594000) alice demo_vault3 =
     Inr (demo_vault3\<lparr>spend := (spend demo_vault3)(alice :=
            \<lparr>weekStart = 2507600, weekSpent = 20, monthStart = 2594000, monthSpent = 0\<rparr>)\<rparr>) \<and>
   weekStart (spend demo_vault (user demo_intent)) = 0 \<and>
   rollWindowsIfNeeded (at_time alice 3000) alice demo_vault =
     Inr (demo_vault\<lparr>spend := (spend demo_vault)(alice :=
            \<lparr>weekStart = 3000, weekSpent = 0, monthStart = 3000, monthSpent = 0\<rparr>)\<rparr>) \<and>
   executeIntent demo_evm (at_time alice 3000) demo_intent [] (demo_vault, ()) \<noteq> Inl WeeklyCap"
  using rollWindowsIfNeeded_spec [where ch = demo_evm and s = demo_vault2
          and e = "at_time alice 606800" and u = alice and i = demo_intent and sig = "[]" and l = "()"]
        rollWindowsIfNeeded_spec [where ch = demo_evm and s = demo_vault3
          and e = "at_time alice 2594000" and u = alice and i = demo_intent and sig = "[]" and l = "()"]
        rollWindowsIfNeeded_spec [where ch = demo_evm and s = demo_vault
          and e = "at_time alice 3000" and u = alice and i = demo_intent and sig = "[]" and l = "()"]
        demo_reachable
  by (simp add: at_time_def sane_time_demo[simplified] rollIfExpired_def demo_vault_simps
        demo_vault2_simps demo_vault3_simps demo_intent_def)

subsection \<open>Views\<close>

text \<open>
  C10. \<^verbatim>\<open>remainingWeekly\<close> and \<^verbatim>\<open>remainingMonthly\<close> return a number and no storage.
  In every reachable state and at every block time, the rollover of the account's
  window succeeds, and each view returns the cap minus the spent amount of the
  window so rolled, or zero when that amount is at least the cap; for an unset or
  an expired window this is the full cap.
\<close>

theorem remaining_views_project_rollover:
  assumes "reachable ch s" and "sane_time (block_timestamp e)"
  shows "\<exists>s2. rollWindowsIfNeeded e u s = Inr s2 \<and>
     remainingWeekly e u s =
       Inr (if weekSpent (spend s2 u) \<ge> weeklyCap (policyOf s u) then 0
            else weeklyCap (policyOf s u) - weekSpent (spend s2 u)) \<and>
     remainingMonthly e u s =
       Inr (if monthSpent (spend s2 u) \<ge> monthlyCap (policyOf s u) then 0
            else monthlyCap (policyOf s u) - monthSpent (spend s2 u)) \<and>
     (weekStart (spend s u) = 0 \<or>
      7 * 86400 \<le> int (unat (block_timestamp e)) - int (unat (weekStart (spend s u))) \<longrightarrow>
        remainingWeekly e u s = Inr (weeklyCap (policyOf s u))) \<and>
     (weekStart (spend s u) = 0 \<or>
      30 * 86400 \<le> int (unat (block_timestamp e)) - int (unat (monthStart (spend s u))) \<longrightarrow>
        remainingMonthly e u s = Inr (monthlyCap (policyOf s u)))"
proof -
  have inv: "window_inv (spend s u)" by (rule reachable_window_inv[OF assms(1)])
  note r = roll_spec[OF inv assms(2)]
  show ?thesis
  proof (cases "weekStart (spend s u) = 0")
    case True
    with inv show ?thesis
      by (simp add: r remainingWeekly_def remainingMonthly_def viewRolledWeek_def
            viewRolledMonth_def rollIfExpired_def window_inv_def)
  next
    case False
    with inv have sw: "sane_time (weekStart (spend s u))" and sm: "sane_time (monthStart (spend s u))"
      by (simp_all add: window_inv_def)
    then have "monthStart (spend s u) \<noteq> 0" by (simp add: sane_time_def)
    then show ?thesis
      using False sane_add(1)[OF sw] sane_add(2)[OF sm] expired_iff(1)[OF sw] expired_iff(2)[OF sm]
      by (simp add: r remainingWeekly_def remainingMonthly_def viewRolledWeek_def
            viewRolledMonth_def rollIfExpired_def Let_def)
  qed
qed

theorem remaining_views_project_rollover_witness:
  "reachable demo_evm demo_vault2 \<and>
   sane_time (block_timestamp (at_time alice 3000)) \<and>
   sane_time (block_timestamp (at_time alice 606800)) \<and>
   remainingWeekly (at_time alice 3000) alice demo_vault2 = Inr 10 \<and>
   remainingMonthly (at_time alice 3000) alice demo_vault2 = Inr 210 \<and>
   remainingWeekly (at_time alice 606800) alice demo_vault2 = Inr 100 \<and>
   remainingMonthly (at_time alice 606800) alice demo_vault2 = Inr 210"
  using remaining_views_project_rollover [where ch = demo_evm and s = demo_vault2
          and e = "at_time alice 3000" and u = alice]
        remaining_views_project_rollover [where ch = demo_evm and s = demo_vault2
          and e = "at_time alice 606800" and u = alice]
        demo_reachable
  by (simp add: at_time_def sane_time_demo[simplified] demo_vault2_simps demo_policy_def
        rollWindowsIfNeeded_def checked_add_def days_def)

end
